theory Spec2Isabelle
  imports
    Complex_Main
    "HOL-Library.AList"
    "HOL-Library.Char_ord"
    "HOL-Library.List_Lexorder"
    "HOL-Library.Log_Nat"
begin

section \<open>Python strings\<close>

text \<open>
  Strings are lists of characters, the code points of the string; no proof of a general
  statement below looks inside a character. \<open>str.lower()\<close> is a function of the
  language: its case mapping is a table of the Unicode standard and no part of the
  source. It is a parameter \<open>lower\<close> of every definition whose source calls it, and
  every statement below holds for every function from strings to strings in its place.

  \<open>latin1_lower\<close> is the instance used in the examples: \<open>str.lower()\<close> on the strings of
  code points below 256. The capitals \<open>A\<close> .. \<open>Z\<close> (65 .. 90) and the capitals of Latin-1
  (192 .. 214 and 216 .. 222) move 32 code points up, every other character is kept.
\<close>

definition latin1_lower_char :: "char \<Rightarrow> char" where
  "latin1_lower_char c =
     (let n = (of_char c :: nat)
      in if (65 \<le> n \<and> n \<le> 90) \<or> (192 \<le> n \<and> n \<le> 214) \<or> (216 \<le> n \<and> n \<le> 222)
         then char_of (n + 32) else c)"

definition latin1_lower :: "string \<Rightarrow> string" where
  "latin1_lower s = map latin1_lower_char s"

text \<open>\<open>hay.startswith(needle)\<close> and the substring test \<open>needle in hay\<close>.\<close>

fun startswith :: "'a list \<Rightarrow> 'a list \<Rightarrow> bool" where
  "startswith hay [] = True"
| "startswith [] (n # ns) = False"
| "startswith (h # hs) (n # ns) = (h = n \<and> startswith hs ns)"

fun str_in :: "'a list \<Rightarrow> 'a list \<Rightarrow> bool" where
  "str_in needle [] = (needle = [])"
| "str_in needle (h # hs) = (startswith (h # hs) needle \<or> str_in needle hs)"

text \<open>\<open>x or ""\<close> on an optional string, and the truth value of an optional string
  (\<open>None\<close> and \<open>""\<close> are false).\<close>

definition or_empty :: "string option \<Rightarrow> string" where
  "or_empty v = (case v of None \<Rightarrow> [] | Some s \<Rightarrow> s)"

definition truthy :: "string option \<Rightarrow> bool" where
  "truthy v = (case v of None \<Rightarrow> False | Some s \<Rightarrow> s \<noteq> [])"

text \<open>\<open>sep.join(xs)\<close>.\<close>

fun join :: "string \<Rightarrow> string list \<Rightarrow> string" where
  "join sep [] = []"
| "join sep [x] = x"
| "join sep (x # y # ys) = x @ sep @ join sep (y # ys)"

text \<open>\<open>str(n)\<close> for a count: the decimal digits of a natural number.\<close>

definition digit_char :: "nat \<Rightarrow> char" where
  "digit_char d = char_of (48 + d)"

fun str_nat :: "nat \<Rightarrow> string" where
  "str_nat n = (if n < 10 then [digit_char n] else str_nat (n div 10) @ [digit_char (n mod 10)])"

declare str_nat.simps [simp del]

section \<open>Contacts\<close>

text \<open>
  A contact is the JSON object of the search API: an identifier and a \<open>properties\<close>
  object from property names to strings. Every access of the script is of the form
  \<open>l.get("properties", {}).get(name)\<close>, which gives \<open>None\<close> for a missing
  \<open>properties\<close> object, a missing key and a \<open>null\<close> value alike; the three are one case
  of the map here.
\<close>

record contact =
  cid :: string
  properties :: "string \<rightharpoonup> string"

definition get_prop :: "contact \<Rightarrow> string \<Rightarrow> string option" where
  "get_prop l name = properties l name"

section \<open>Categorising leads\<close>

definition filter_by_type :: "contact list \<Rightarrow> string \<Rightarrow> contact list" where
  "filter_by_type leads lead_type = [l \<leftarrow> leads. get_prop l ''lead_type'' = Some lead_type]"

definition match_lead_source ::
  "(string \<Rightarrow> string) \<Rightarrow> contact list \<Rightarrow> string \<Rightarrow> contact list" where
  "match_lead_source lower leads keyword =
     [l \<leftarrow> leads. str_in (lower keyword) (lower (or_empty (get_prop l ''lead_source'')))]"

definition match_blank_lead_source :: "contact list \<Rightarrow> contact list" where
  "match_blank_lead_source leads = [l \<leftarrow> leads. \<not> truthy (get_prop l ''lead_source'')]"

text \<open>Python dictionaries keep insertion order and one entry per key: an association
  list built with \<open>AList.update\<close> (replace in place, or append).\<close>

type_synonym 'v dict = "(string \<times> 'v) list"

definition dict_values :: "'v dict \<Rightarrow> 'v list" where
  "dict_values d = map snd d"

definition lead_types :: "contact list \<Rightarrow> contact list dict" where
  "lead_types leads_allocate =
     AList.update ''self_gen_lead'' (filter_by_type leads_allocate ''Self Gen'')
    (AList.update ''nurture_lead'' (filter_by_type leads_allocate ''Nurture'')
    (AList.update ''resubmitted_lead'' (filter_by_type leads_allocate ''Resubmitted'')
    (AList.update ''duplicate_lead'' (filter_by_type leads_allocate ''Duplicate'')
    (AList.update ''new_lead'' (filter_by_type leads_allocate ''New Lead'') []))))"

definition lead_sources ::
  "(string \<Rightarrow> string) \<Rightarrow> string list \<Rightarrow> contact list \<Rightarrow> contact list dict" where
  "lead_sources lower main_lead_source leads_create =
     AList.update ''no_lead_source'' (match_blank_lead_source leads_create)
       (foldl (\<lambda>d source.
                 AList.update (lower source) (match_lead_source lower leads_create source) d)
          [] main_lead_source)"

section \<open>Exceptions\<close>

text \<open>The failures of the client are a plain \<open>Exception\<close> with a message; date
  arithmetic that leaves the range of \<open>datetime\<close> raises \<open>OverflowError\<close>.\<close>

datatype error = Exception string | OverflowError string

section \<open>Time range: yesterday 17:00 to today 16:59 (GMT+7)\<close>

text \<open>
  A \<open>datetime\<close> of the fixed zone \<open>tz_gmt7\<close>. The calendar date is kept as the number of
  days since 1970-01-01 (so the day before is \<open>day - 1\<close>), the time of day as in Python.
  The dates a \<open>datetime\<close> can hold run from 0001-01-01 (\<open>min_day\<close>) to 9999-12-31
  (\<open>max_day\<close>).
\<close>

record datetime =
  day :: int
  hour :: int
  minute :: int
  second :: int
  microsecond :: int

definition min_day :: int where
  "min_day = - 719162"

definition max_day :: int where
  "max_day = 2932896"

definition tz_gmt7 :: int where
  "tz_gmt7 = 7 * 3600"

text \<open>\<open>datetime.now(tz=tz_gmt7)\<close> when the clock reads \<open>t\<close> microseconds since the epoch,
  for a clock whose date at UTC+7 a \<open>datetime\<close> can hold.\<close>

definition datetime_now :: "int \<Rightarrow> datetime" where
  "datetime_now t =
     (let local_us = t + tz_gmt7 * 1000000;
          us_of_day = local_us mod (86400 * 1000000)
      in \<lparr>day = local_us div (86400 * 1000000),
          hour = us_of_day div (3600 * 1000000),
          minute = us_of_day div (60 * 1000000) mod 60,
          second = us_of_day div 1000000 mod 60,
          microsecond = us_of_day mod 1000000\<rparr>)"

text \<open>\<open>d - timedelta(days=n)\<close>: the date moves by whole days, and a result outside the
  range of \<open>datetime\<close> raises \<open>OverflowError\<close>.\<close>

definition minus_days :: "datetime \<Rightarrow> int \<Rightarrow> error + datetime" where
  "minus_days d n =
     (if day d - n < min_day \<or> max_day < day d - n
      then Inl (OverflowError ''date value out of range'')
      else Inr (d\<lparr>day := day d - n\<rparr>))"

text \<open>
  Python floats are binary64. \<open>fl x\<close> is the double nearest to the rational \<open>x\<close> (ties to
  the even mantissa), for \<open>x\<close> in the normal range, where every value of this script
  lies: \<open>expo x\<close> is the binary exponent of \<open>x\<close>, \<open>ulp x\<close> the spacing of the doubles
  around \<open>x\<close>. Integer true division and float multiplication are correctly rounded,
  so each is \<open>fl\<close> of the exact result.
\<close>

definition expo :: "rat \<Rightarrow> int" where
  "expo x =
     (let a = \<bar>x\<bar>
      in if 1 \<le> a then bitlen \<lfloor>a\<rfloor> - 1 else - bitlen (\<lceil>1 / a\<rceil> - 1))"

definition ulp :: "rat \<Rightarrow> rat" where
  "ulp x = 2 powi (expo x - 52)"

definition round_half_even :: "rat \<Rightarrow> int" where
  "round_half_even r =
     (let n = \<lfloor>r\<rfloor>; d = r - of_int n
      in if d < 1 / 2 then n else if 1 / 2 < d then n + 1 else if even n then n else n + 1)"

definition fl :: "rat \<Rightarrow> rat" where
  "fl x = (if x = 0 then 0 else of_int (round_half_even (x / ulp x)) * ulp x)"

text \<open>\<open>int(x)\<close> of a float: truncation towards zero.\<close>

definition py_int :: "rat \<Rightarrow> int" where
  "py_int x = (if 0 \<le> x then \<lfloor>x\<rfloor> else \<lceil>x\<rceil>)"

text \<open>\<open>d.timestamp()\<close> of an aware datetime: \<open>(d - epoch).total_seconds()\<close>, the whole
  microseconds of the difference divided by \<open>10**6\<close>.\<close>

definition total_microseconds :: "datetime \<Rightarrow> int" where
  "total_microseconds d =
     ((day d * 86400 + hour d * 3600 + minute d * 60 + second d) - tz_gmt7) * 1000000
       + microsecond d"

definition timestamp :: "datetime \<Rightarrow> rat" where
  "timestamp d = fl (of_int (total_microseconds d) / 1000000)"

definition yesterday :: "datetime \<Rightarrow> error + datetime" where
  "yesterday now = minus_days now 1"

definition start_time :: "datetime \<Rightarrow> error + datetime" where
  "start_time now =
     (case yesterday now of
        Inl e \<Rightarrow> Inl e
      | Inr y \<Rightarrow> Inr (y\<lparr>hour := 17, minute := 0, second := 0, microsecond := 0\<rparr>))"

definition end_time :: "datetime \<Rightarrow> datetime" where
  "end_time now = now\<lparr>hour := 16, minute := 59, second := 59, microsecond := 999999\<rparr>"

definition start_timestamp :: "datetime \<Rightarrow> error + int" where
  "start_timestamp now =
     (case start_time now of
        Inl e \<Rightarrow> Inl e
      | Inr d \<Rightarrow> Inr (py_int (fl (timestamp d * 1000))))"

definition end_timestamp :: "datetime \<Rightarrow> int" where
  "end_timestamp now = py_int (fl (timestamp (end_time now) * 1000))"

text \<open>The spec's reading of the window: the epoch milliseconds of a wall-clock time
  \<open>h:m:s.ms\<close> on calendar day \<open>d\<close> at UTC+7, and the calendar day of an instant at UTC+7.\<close>

definition civil_ms :: "int \<Rightarrow> int \<Rightarrow> int \<Rightarrow> int \<Rightarrow> int \<Rightarrow> int" where
  "civil_ms d h m s ms = ((d * 86400 + h * 3600 + m * 60 + s) - 7 * 3600) * 1000 + ms"

definition local_day :: "int \<Rightarrow> int" where
  "local_day t = (t + 7 * 3600 * 1000000) div (86400 * 1000000)"

section \<open>HubSpot API utilities\<close>

text \<open>
  The request body of the search endpoint, the response, and the decoded JSON body
  \<open>{results: [...], paging?: {next?: {after: cursor}}}\<close> with a string cursor. The URL
  and the headers are the same in every request and are left out.
\<close>

datatype filter_value = IntValue int | StrValue string

record filter =
  propertyName :: string
  operator :: string
  filter_value :: filter_value
  highValue :: "int option"

record payload =
  filterGroups :: "filter list list"
  payload_properties :: "string list"
  limit :: int
  after :: "string option"

datatype next_obj = Next (next_after: "string option")

datatype paging_obj = Paging (paging_next: "next_obj option")

record 'c body =
  results :: "'c list option"
  paging :: "paging_obj option"

record 'c response =
  status_code :: int
  response_text :: string
  json :: "'c body"

definition str_int :: "int \<Rightarrow> string" where
  "str_int i = (if i < 0 then ''-'' @ str_nat (nat (- i)) else str_nat (nat i))"

definition api_error :: "int \<Rightarrow> string \<Rightarrow> error" where
  "api_error status body = Exception (''HubSpot API error: '' @ str_int status @ '' - '' @ body)"

definition retry_exhausted :: error where
  "retry_exhausted = Exception ''Exceeded retry limit for HubSpot API.''"

text \<open>
  What the script does to the outside world is a log of events: it sleeps and it posts.
  \<open>Sleep d\<close> is \<open>time.sleep\<close> called with the decimal number of seconds \<open>d\<close>. The
  server is any function from the log so far (ending in the request at hand) to a
  response; a run threads the log. A program returns a value or raises, and may fail to
  return at all (\<open>None\<close>) because of the \<open>while True\<close> loop.
\<close>

datatype event = Sleep rat | Post payload

type_synonym 'c server = "event list \<Rightarrow> 'c response"

type_synonym 'a prog = "event list \<Rightarrow> ((error + 'a) \<times> event list) option"

definition return :: "'a \<Rightarrow> 'a prog" where
  "return x evs = Some (Inr x, evs)"

definition raise_error :: "error \<Rightarrow> 'a prog" where
  "raise_error e evs = Some (Inl e, evs)"

definition bind :: "'a prog \<Rightarrow> ('a \<Rightarrow> 'b prog) \<Rightarrow> 'b prog" where
  "bind m f evs =
     (case m evs of
        None \<Rightarrow> None
      | Some (Inl e, evs') \<Rightarrow> Some (Inl e, evs')
      | Some (Inr x, evs') \<Rightarrow> f x evs')"

text \<open>\<open>range(retries)\<close>.\<close>

definition py_range :: "int \<Rightarrow> int list" where
  "py_range n = [0..n - 1]"

text \<open>The \<open>for attempt in range(retries)\<close> loop with its \<open>else\<close> branch.\<close>

fun attempt_loop ::
  "'c server \<Rightarrow> payload \<Rightarrow> int list \<Rightarrow> event list \<Rightarrow> (error + 'c response) \<times> event list"
where
  "attempt_loop srv payload [] evs = (Inl retry_exhausted, evs)"
| "attempt_loop srv payload (attempt # rest) evs =
     (let evs1 = evs @ [Sleep (2 / 10)];
          evs2 = evs1 @ [Post payload];
          response = srv evs2
      in if status_code response = 200 then (Inr response, evs2)
         else if status_code response = 429
         then attempt_loop srv payload rest (evs2 @ [Sleep (of_int (attempt + 1) * (5 / 10))])
         else (Inl (api_error (status_code response) (response_text response)), evs2))"

text \<open>\<open>properties or ["email"]\<close>, \<open>data.get("results", [])\<close> and
  \<open>data.get("paging", {}).get("next", {}).get("after")\<close>.\<close>

definition properties_or_email :: "string list option \<Rightarrow> string list" where
  "properties_or_email props =
     (case props of None \<Rightarrow> [''email''] | Some [] \<Rightarrow> [''email''] | Some ps \<Rightarrow> ps)"

definition get_results :: "'c body \<Rightarrow> 'c list" where
  "get_results data = (case results data of None \<Rightarrow> [] | Some rs \<Rightarrow> rs)"

definition get_after :: "'c body \<Rightarrow> string option" where
  "get_after data =
     (case paging data of
        None \<Rightarrow> None
      | Some p \<Rightarrow> (case paging_next p of None \<Rightarrow> None | Some n \<Rightarrow> next_after n))"

definition make_payload ::
  "filter list \<Rightarrow> string list option \<Rightarrow> int \<Rightarrow> string option \<Rightarrow> payload" where
  "make_payload filters props page_limit aft =
     \<lparr>filterGroups = [filters],
      payload_properties = properties_or_email props,
      limit = page_limit,
      after = (if truthy aft then aft else None)\<rparr>"

text \<open>The \<open>while True\<close> loop, from the state \<open>(all_results, after)\<close>.\<close>

partial_function (option) fetch_pages ::
  "'c server \<Rightarrow> filter list \<Rightarrow> string list option \<Rightarrow> int \<Rightarrow> int \<Rightarrow>
     'c list \<Rightarrow> string option \<Rightarrow> event list \<Rightarrow> ((error + 'c list) \<times> event list) option"
where
  "fetch_pages srv filters props page_limit retries all_results aft evs =
     (case attempt_loop srv (make_payload filters props page_limit aft) (py_range retries) evs of
        (Inl e, evs') \<Rightarrow> Some (Inl e, evs')
      | (Inr response, evs') \<Rightarrow>
          (let data = json response;
               all_results' = all_results @ get_results data;
               aft' = get_after data
           in if \<not> truthy aft' then Some (Inr all_results', evs')
              else fetch_pages srv filters props page_limit retries all_results' aft' evs'))"

declare fetch_pages.simps [code]

definition fetch_all_hubspot_contacts ::
  "'c server \<Rightarrow> filter list \<Rightarrow> string list option \<Rightarrow> int \<Rightarrow> int \<Rightarrow> 'c list prog" where
  "fetch_all_hubspot_contacts srv filters props page_limit retries evs =
     fetch_pages srv filters props page_limit retries [] None evs"

section \<open>Filter helpers\<close>

definition between_filter :: "int \<Rightarrow> int \<Rightarrow> string \<Rightarrow> filter list" where
  "between_filter start_ts end_ts property_name =
     [\<lparr>propertyName = property_name, operator = ''BETWEEN'',
       filter_value = IntValue start_ts, highValue = Some end_ts\<rparr>]"

definition eq_filter :: "string \<Rightarrow> string \<Rightarrow> filter list" where
  "eq_filter property_name v =
     [\<lparr>propertyName = property_name, operator = ''EQ'',
       filter_value = StrValue v, highValue = None\<rparr>]"

section \<open>Fetching leads and lifecycle stages\<close>

text \<open>The calls of the script leave \<open>limit=100\<close> and \<open>retries=3\<close> at their defaults.\<close>

definition fetch :: "contact server \<Rightarrow> filter list \<Rightarrow> string list option \<Rightarrow> contact list prog" where
  "fetch srv filters props = fetch_all_hubspot_contacts srv filters props 100 3"

definition lead_source_create :: "contact server \<Rightarrow> int \<Rightarrow> int \<Rightarrow> contact list dict prog" where
  "lead_source_create srv start_ts end_ts =
     bind (fetch srv (between_filter start_ts end_ts ''createdate'') (Some [''lead_source'']))
       (\<lambda>cs. return (AList.update ''lead_source_create_count'' cs []))"


definition lead_source_values :: "contact list dict \<Rightarrow> string list" where
  "lead_source_values created =
     concat (map (\<lambda>contacts.
       concat (map (\<lambda>contact.
         if truthy (get_prop contact ''lead_source'')
         then [or_empty (get_prop contact ''lead_source'')] else []) contacts))
       (dict_values created))"

definition lead_source_with_activity ::
  "(string list \<Rightarrow> string list) \<Rightarrow> contact list dict \<Rightarrow> string list" where
  "lead_source_with_activity enum created = enum (lead_source_values created)"

definition owner_props :: "string list option" where
  "owner_props = Some [''secondary_owner'', ''hubspot_owner_id'']"

text \<open>The dictionary display of the six stages, from the six fetched lists.\<close>

definition lifecycle_stage_dict ::
  "contact list \<Rightarrow> contact list \<Rightarrow> contact list \<Rightarrow> contact list \<Rightarrow> contact list \<Rightarrow> contact list
     \<Rightarrow> contact list dict" where
  "lifecycle_stage_dict contact_count take_over_call_count take_over_text_count
       zoom_book_count zoom_attend_count deal_negotiation_count =
     AList.update ''deal_negotiation_count'' deal_negotiation_count
    (AList.update ''zoom_attend_count'' zoom_attend_count
    (AList.update ''zoom_book_count'' zoom_book_count
    (AList.update ''take_over_text_count'' take_over_text_count
    (AList.update ''take_over_call_count'' take_over_call_count
    (AList.update ''contact_count'' contact_count [])))))"

definition lifecycle_stage :: "contact server \<Rightarrow> int \<Rightarrow> int \<Rightarrow> contact list dict prog" where
  "lifecycle_stage srv start_ts end_ts =
     bind (fetch srv (between_filter start_ts end_ts
             ''date_entered__contact__new_lifecycle_stage_pipeline__'') owner_props) (\<lambda>contact_count.
     bind (fetch srv (between_filter start_ts end_ts ''takeover_date_time''
             @ eq_filter ''takeover_type'' ''TO Call'') owner_props) (\<lambda>take_over_call_count.
     bind (fetch srv (between_filter start_ts end_ts ''takeover_date_time''
             @ eq_filter ''takeover_type'' ''TO Text'') owner_props) (\<lambda>take_over_text_count.
     bind (fetch srv (between_filter start_ts end_ts
             ''date_entered__zoom_booked__new_lifecycle_stage_pipeline__'') owner_props) (\<lambda>zoom_book_count.
     bind (fetch srv (between_filter start_ts end_ts
             ''date_entered__zoom_attended__new_lifecycle_stage_pipeline__'') owner_props) (\<lambda>zoom_attend_count.
     bind (fetch srv (between_filter start_ts end_ts
             ''date_entered__deal_negotiation__new_lifecycle_stage_pipeline__'') owner_props) (\<lambda>deal_negotiation_count.
     return (lifecycle_stage_dict contact_count take_over_call_count take_over_text_count
               zoom_book_count zoom_attend_count deal_negotiation_count)))))))"

section \<open>Unique owner lists\<close>

text \<open>The values the two set comprehensions collect, in the order the comprehension
  meets them: group by group, contact by contact. \<open>cc_team\<close> is the list of identifiers
  of the CC team.\<close>

definition contact_owner_values :: "string list \<Rightarrow> contact list dict \<Rightarrow> string list" where
  "contact_owner_values cc_team stages =
     concat (map (\<lambda>group.
       concat (map (\<lambda>contact.
         if truthy (get_prop contact ''hubspot_owner_id'')
            \<and> or_empty (get_prop contact ''hubspot_owner_id'') \<notin> set cc_team
         then [or_empty (get_prop contact ''hubspot_owner_id'')] else []) group))
       (dict_values stages))"

definition contact_owners_with_activity ::
  "(string list \<Rightarrow> string list) \<Rightarrow> string list \<Rightarrow> contact list dict \<Rightarrow> string list" where
  "contact_owners_with_activity enum cc_team stages = enum (contact_owner_values cc_team stages)"

definition secondary_owner_values :: "contact list dict \<Rightarrow> string list" where
  "secondary_owner_values stages =
     concat (map (\<lambda>group.
       concat (map (\<lambda>contact.
         if truthy (get_prop contact ''secondary_owner'')
         then [or_empty (get_prop contact ''secondary_owner'')] else []) group))
       (dict_values stages))"

definition unique_secondary_owners_with_activity ::
  "(string list \<Rightarrow> string list) \<Rightarrow> contact list dict \<Rightarrow> string list" where
  "unique_secondary_owners_with_activity enum stages = enum (secondary_owner_values stages)"

section \<open>Metrics fetching\<close>

definition get_count_contact_owner ::
  "contact server \<Rightarrow> int \<Rightarrow> int \<Rightarrow> string \<Rightarrow> string \<Rightarrow> nat prog" where
  "get_count_contact_owner srv start_ts end_ts property_name sales_id =
     bind (fetch srv (between_filter start_ts end_ts property_name
                        @ eq_filter ''hubspot_owner_id'' sales_id) None)
       (\<lambda>cs. return (length cs))"

definition get_count_secondary_owner ::
  "contact server \<Rightarrow> int \<Rightarrow> int \<Rightarrow> string \<Rightarrow> string \<Rightarrow> string option \<Rightarrow> nat prog" where
  "get_count_secondary_owner srv start_ts end_ts property_name sales_id takeover_type =
     bind (fetch srv (between_filter start_ts end_ts property_name
                        @ eq_filter ''secondary_owner'' sales_id
                        @ (if truthy takeover_type
                           then eq_filter ''takeover_type'' (or_empty takeover_type) else [])) None)
       (\<lambda>cs. return (length cs))"

definition get_count_lead_source :: "contact server \<Rightarrow> int \<Rightarrow> int \<Rightarrow> string \<Rightarrow> nat prog" where
  "get_count_lead_source srv start_ts end_ts source =
     bind (fetch srv (between_filter start_ts end_ts ''createdate''
                        @ eq_filter ''lead_source'' source) None)
       (\<lambda>cs. return (length cs))"

section \<open>Reports generation\<close>

text \<open>\<open>sales_team.get(sales_id, sales_id)\<close>.\<close>

definition sales_name :: "(string \<rightharpoonup> string) \<Rightarrow> string \<Rightarrow> string" where
  "sales_name sales_team sales_id =
     (case sales_team sales_id of None \<Rightarrow> sales_id | Some name \<Rightarrow> name)"

definition newline :: string where
  "newline = [char_of (10 :: nat)]"

definition sales_direct_paragraph :: "string \<Rightarrow> nat \<Rightarrow> nat \<Rightarrow> nat \<Rightarrow> string" where
  "sales_direct_paragraph name zoom_book attend deal =
     name @ newline
     @ '' Zoom Book: '' @ str_nat zoom_book @ newline
     @ '' Attend: '' @ str_nat attend @ newline
     @ '' Deal Negotiation: '' @ str_nat deal @ newline"

fun output_sales_direct ::
  "contact server \<Rightarrow> int \<Rightarrow> int \<Rightarrow> (string \<rightharpoonup> string) \<Rightarrow> string list \<Rightarrow> string list
     \<Rightarrow> string list prog"
where
  "output_sales_direct srv start_ts end_ts sales_team [] out = return out"
| "output_sales_direct srv start_ts end_ts sales_team (sales_id # rest) out =
     bind (get_count_contact_owner srv start_ts end_ts
             ''date_entered__zoom_booked__new_lifecycle_stage_pipeline__'' sales_id) (\<lambda>zoom_book.
     bind (get_count_contact_owner srv start_ts end_ts
             ''date_entered__zoom_attended__new_lifecycle_stage_pipeline__'' sales_id) (\<lambda>attend.
     bind (get_count_contact_owner srv start_ts end_ts
             ''date_entered__deal_negotiation__new_lifecycle_stage_pipeline__'' sales_id) (\<lambda>deal.
     output_sales_direct srv start_ts end_ts sales_team rest
       (out @ [sales_direct_paragraph (sales_name sales_team sales_id) zoom_book attend deal]))))"

definition cc_to_paragraph :: "string \<Rightarrow> nat \<Rightarrow> nat \<Rightarrow> nat \<Rightarrow> nat \<Rightarrow> nat \<Rightarrow> string" where
  "cc_to_paragraph name to_call to_text zoom_book attend deal =
     name @ newline
     @ '' TO Call: '' @ str_nat to_call @ newline
     @ '' TO Text: '' @ str_nat to_text @ newline
     @ '' Zoom Book: '' @ str_nat zoom_book @ newline
     @ '' Attend: '' @ str_nat attend @ newline
     @ '' Deal Negotiation: '' @ str_nat deal @ newline"

fun output_cc_to ::
  "contact server \<Rightarrow> int \<Rightarrow> int \<Rightarrow> (string \<rightharpoonup> string) \<Rightarrow> string list \<Rightarrow> string list
     \<Rightarrow> string list prog"
where
  "output_cc_to srv start_ts end_ts sales_team [] out = return out"
| "output_cc_to srv start_ts end_ts sales_team (sales_id # rest) out =
     bind (get_count_secondary_owner srv start_ts end_ts
             ''takeover_date_time'' sales_id (Some ''TO Call'')) (\<lambda>to_call.
     bind (get_count_secondary_owner srv start_ts end_ts
             ''takeover_date_time'' sales_id (Some ''TO Text'')) (\<lambda>to_text.
     bind (get_count_secondary_owner srv start_ts end_ts
             ''date_entered__zoom_booked__new_lifecycle_stage_pipeline__'' sales_id None) (\<lambda>zoom_book.
     bind (get_count_secondary_owner srv start_ts end_ts
             ''date_entered__zoom_attended__new_lifecycle_stage_pipeline__'' sales_id None) (\<lambda>attend.
     bind (get_count_secondary_owner srv start_ts end_ts
             ''date_entered__deal_negotiation__new_lifecycle_stage_pipeline__'' sales_id None) (\<lambda>deal.
     output_cc_to srv start_ts end_ts sales_team rest
       (out @ [cc_to_paragraph (sales_name sales_team sales_id)
                 to_call to_text zoom_book attend deal]))))))"

section \<open>Lead source report\<close>

text \<open>\<open>d.get(k, [])\<close> and \<open>d[k].append(x)\<close> on a dictionary of lists.\<close>

definition dict_get :: "'v list dict \<Rightarrow> string \<Rightarrow> 'v list" where
  "dict_get d k = (case map_of d k of None \<Rightarrow> [] | Some v \<Rightarrow> v)"

definition dict_append :: "string \<Rightarrow> 'v \<Rightarrow> 'v list dict \<Rightarrow> 'v list dict" where
  "dict_append k x d = AList.map_entry k (\<lambda>v. v @ [x]) d"

definition grouped_sources_init :: "string list \<Rightarrow> string list dict" where
  "grouped_sources_init main_lead_source =
     AList.update ''Other'' []
       (foldl (\<lambda>d source. AList.update source [] d) [] main_lead_source)"

text \<open>The inner \<open>for main_source in main_lead_source\<close> loop, left at the first match by
  \<open>break\<close>: the canonical source that matched, if any.\<close>

fun first_match :: "(string \<Rightarrow> string) \<Rightarrow> string list \<Rightarrow> string \<Rightarrow> string option" where
  "first_match lower [] source = None"
| "first_match lower (main_source # rest) source =
     (if source \<noteq> [] \<and> main_source \<noteq> [] \<and> str_in (lower main_source) (lower source)
      then Some main_source
      else first_match lower rest source)"

definition group_source ::
  "(string \<Rightarrow> string) \<Rightarrow> string list \<Rightarrow> string list dict \<Rightarrow> string \<Rightarrow> string list dict" where
  "group_source lower main_lead_source grouped source =
     (case first_match lower main_lead_source source of
        Some main_source \<Rightarrow> dict_append main_source source grouped
      | None \<Rightarrow> if source \<noteq> [] then dict_append ''Other'' source grouped else grouped)"

definition grouped_sources ::
  "(string \<Rightarrow> string) \<Rightarrow> string list \<Rightarrow> string list \<Rightarrow> string list dict" where
  "grouped_sources lower main_lead_source sources =
     foldl (group_source lower main_lead_source) (grouped_sources_init main_lead_source) sources"

text \<open>\<open>sorted(list(set(xs)))\<close>: the distinct elements in ascending order, whatever the
  order in which the set is enumerated.\<close>

definition sorted_set :: "string list \<Rightarrow> string list" where
  "sorted_set xs = sort (remdups xs)"

fun sub_source_loop ::
  "contact server \<Rightarrow> int \<Rightarrow> int \<Rightarrow> string list \<Rightarrow> nat \<Rightarrow> string list
     \<Rightarrow> (nat \<times> string list) prog"
where
  "sub_source_loop srv start_ts end_ts [] main_count sub_lines = return (main_count, sub_lines)"
| "sub_source_loop srv start_ts end_ts (sub_source # rest) main_count sub_lines =
     bind (get_count_lead_source srv start_ts end_ts sub_source) (\<lambda>count.
     sub_source_loop srv start_ts end_ts rest (main_count + count)
       (sub_lines @ [sub_source @ '': '' @ str_nat count]))"

fun output_lead_source_loop ::
  "contact server \<Rightarrow> int \<Rightarrow> int \<Rightarrow> string list dict \<Rightarrow> string list \<Rightarrow> string list
     \<Rightarrow> string list prog"
where
  "output_lead_source_loop srv start_ts end_ts grouped [] out = return out"
| "output_lead_source_loop srv start_ts end_ts grouped (main_source # rest) out =
     (let sub_sources = sorted_set (dict_get grouped main_source)
      in if sub_sources = [] then output_lead_source_loop srv start_ts end_ts grouped rest out
         else bind (sub_source_loop srv start_ts end_ts sub_sources 0 []) (\<lambda>(main_count, sub_lines).
              output_lead_source_loop srv start_ts end_ts grouped rest
                (out @ [main_source @ '': '' @ str_nat main_count] @ sub_lines @ [[]])))"

definition output_lead_source ::
  "contact server \<Rightarrow> int \<Rightarrow> int \<Rightarrow> string list \<Rightarrow> string list dict \<Rightarrow> string list prog" where
  "output_lead_source srv start_ts end_ts main_lead_source grouped =
     output_lead_source_loop srv start_ts end_ts grouped (main_lead_source @ [''Other'']) []"

section \<open>Final output\<close>

datatype output_value = IntVal int | StrVal string

text \<open>\<open>**{k: len(v) for k, v in d.items()}\<close> inside a dictionary display: each entry is
  written into the dictionary built so far, a later key replacing an earlier one.\<close>

definition spread_len :: "contact list dict \<Rightarrow> output_value dict \<Rightarrow> output_value dict" where
  "spread_len d out = foldl (\<lambda>acc (k, v). AList.update k (IntVal (int (length v))) acc) out d"

definition sum_len :: "contact list dict \<Rightarrow> int" where
  "sum_len d = sum_list (map (\<lambda>v. int (length v)) (dict_values d))"

definition other_lead :: "contact list \<Rightarrow> int" where
  "other_lead leads_allocate = int (length leads_allocate) - sum_len (lead_types leads_allocate)"

definition other_source :: "(string \<Rightarrow> string) \<Rightarrow> string list \<Rightarrow> contact list \<Rightarrow> int" where
  "other_source lower main_lead_source leads_create =
     int (length leads_create) - sum_len (lead_sources lower main_lead_source leads_create)"

definition output_dict ::
  "(string \<Rightarrow> string) \<Rightarrow> string list \<Rightarrow> contact list \<Rightarrow> contact list \<Rightarrow> contact list dict \<Rightarrow>
     string list \<Rightarrow> string list \<Rightarrow> string list \<Rightarrow> output_value dict" where
  "output_dict lower main_lead_source leads_allocate leads_create stages
       cc_to sales_direct lead_source =
     AList.update ''Lead Source Report'' (StrVal (join newline lead_source))
    (AList.update ''Sales Direct Report'' (StrVal (join newline sales_direct))
    (AList.update ''CC TO Report'' (StrVal (join newline cc_to))
    (spread_len stages
    (AList.update ''total_lead_create'' (IntVal (int (length leads_create)))
    (AList.update ''other_source'' (IntVal (other_source lower main_lead_source leads_create))
    (spread_len (lead_sources lower main_lead_source leads_create)
    (AList.update ''total_lead_allocate'' (IntVal (int (length leads_allocate)))
    (AList.update ''other_lead'' (IntVal (other_lead leads_allocate))
    (spread_len (lead_types leads_allocate) [])))))))))"

text \<open>The whole script: the time window, the leads, the lifecycle stages, the owners,
  the three reports and the output record, in the order of the source. The configuration
  is taken as decoded: \<open>cc_team\<close> the identifiers of the CC team, \<open>sales_team\<close> the mapping
  from identifier to name, \<open>main_lead_source\<close> the canonical names after \<open>strip()\<close>, and
  \<open>now\<close> the value of \<open>datetime.now(tz=tz_gmt7)\<close>. An exception of the time window ends
  the script before the first request.\<close>

definition script ::
  "contact server \<Rightarrow> (string \<Rightarrow> string) \<Rightarrow> (string list \<Rightarrow> string list) \<Rightarrow> string list \<Rightarrow>
     (string \<rightharpoonup> string) \<Rightarrow> string list \<Rightarrow> datetime \<Rightarrow> output_value dict prog" where
  "script srv lower enum cc_team sales_team main_lead_source now =
     bind (case start_timestamp now of Inl e \<Rightarrow> raise_error e | Inr ts \<Rightarrow> return ts) (\<lambda>start_ts.
     (let end_ts = end_timestamp now;
          lead_props = Some [''email'', ''lead_type'', ''lead_source'']
      in
      bind (fetch srv (between_filter start_ts end_ts
              ''date_entered__new_lead__new_lifecycle_stage_pipeline__'') lead_props) (\<lambda>leads_allocate.
      bind (fetch srv (between_filter start_ts end_ts ''createdate'') lead_props) (\<lambda>leads_create.
      bind (lead_source_create srv start_ts end_ts) (\<lambda>created.
      bind (lifecycle_stage srv start_ts end_ts) (\<lambda>stages.
      bind (output_sales_direct srv start_ts end_ts sales_team
              (contact_owners_with_activity enum cc_team stages) []) (\<lambda>sales_direct.
      bind (output_cc_to srv start_ts end_ts sales_team
              (unique_secondary_owners_with_activity enum stages) []) (\<lambda>cc_to.
      bind (output_lead_source srv start_ts end_ts main_lead_source
              (grouped_sources lower main_lead_source
                 (lead_source_with_activity enum created))) (\<lambda>lead_source.
      return (output_dict lower main_lead_source leads_allocate leads_create stages
                cc_to sales_direct lead_source))))))))))"

section \<open>The notions of the spec\<close>

text \<open>
  A keyword is contained in a string as a case-insensitive substring when, both taken to
  lower case, the keyword lies in the string between a prefix and a suffix.
\<close>

definition ci_contains :: "(string \<Rightarrow> string) \<Rightarrow> string \<Rightarrow> string \<Rightarrow> bool" where
  "ci_contains lower hay keyword = (\<exists>pre post. lower hay = pre @ lower keyword @ post)"




text \<open>
  A run of successful pages that follows the cursor protocol, from a request with cursor
  \<open>aft\<close> and the log \<open>evs\<close>: the server answers the first attempt of each page with
  status 200 and the next response of the list, every response but the last carries a
  cursor, and the last one carries none (absent or empty). \<open>page_events\<close> are the events
  of such a run: one delay and one request per page, the request of each page after the
  first carrying the cursor of the response before it.
\<close>

fun page_events ::
  "filter list \<Rightarrow> string list option \<Rightarrow> int \<Rightarrow> string option \<Rightarrow> 'c response list \<Rightarrow> event list"
where
  "page_events filters props page_limit aft [] = []"
| "page_events filters props page_limit aft (r # rs) =
     [Sleep (2 / 10), Post (make_payload filters props page_limit aft)]
     @ page_events filters props page_limit (get_after (json r)) rs"

fun cursor_protocol ::
  "'c server \<Rightarrow> filter list \<Rightarrow> string list option \<Rightarrow> int \<Rightarrow> string option \<Rightarrow> event list
     \<Rightarrow> 'c response list \<Rightarrow> bool"
where
  "cursor_protocol srv filters props page_limit aft evs [] = False"
| "cursor_protocol srv filters props page_limit aft evs (r # rs) =
     (srv (evs @ [Sleep (2 / 10), Post (make_payload filters props page_limit aft)]) = r
      \<and> status_code r = 200
      \<and> (if rs = [] then \<not> truthy (get_after (json r))
         else truthy (get_after (json r))
              \<and> cursor_protocol srv filters props page_limit (get_after (json r))
                   (evs @ [Sleep (2 / 10), Post (make_payload filters props page_limit aft)]) rs))"

text \<open>The cursors of the requests of a log.\<close>

fun request_cursors :: "event list \<Rightarrow> string option list" where
  "request_cursors [] = []"
| "request_cursors (Sleep d # evs) = request_cursors evs"
| "request_cursors (Post p # evs) = after p # request_cursors evs"

text \<open>
  The lead-source report as the spec words it. \<open>render_bucket\<close> renders one bucket from
  its rows (sub-source, count): nothing for a bucket without rows, otherwise the header
  with the summed count, one line per row and a blank line. \<open>sub_sources_of\<close> are the
  sub-sources of a bucket, deduplicated and sorted; \<open>count_each\<close> fetches their counts one
  after another.
\<close>

fun render_bucket :: "string \<Rightarrow> (string \<times> nat) list \<Rightarrow> string list" where
  "render_bucket name [] = []"
| "render_bucket name (row # rows) =
     (name @ '': '' @ str_nat (sum_list (map snd (row # rows))))
     # map (\<lambda>(sub_source, count). sub_source @ '': '' @ str_nat count) (row # rows)
     @ [[]]"

definition sub_sources_of :: "string list dict \<Rightarrow> string \<Rightarrow> string list" where
  "sub_sources_of grouped main_source = sort (remdups (dict_get grouped main_source))"

fun count_each :: "contact server \<Rightarrow> int \<Rightarrow> int \<Rightarrow> string list \<Rightarrow> nat list prog" where
  "count_each srv start_ts end_ts [] = return []"
| "count_each srv start_ts end_ts (source # rest) =
     bind (get_count_lead_source srv start_ts end_ts source) (\<lambda>count.
     bind (count_each srv start_ts end_ts rest) (\<lambda>counts. return (count # counts)))"

text \<open>The whole report from the counts of all sub-sources, bucket after bucket: each
  bucket takes as many counts as it has sub-sources.\<close>

fun render_report :: "string list dict \<Rightarrow> string list \<Rightarrow> nat list \<Rightarrow> string list" where
  "render_report grouped [] counts = []"
| "render_report grouped (main_source # rest) counts =
     (let sub_sources = sub_sources_of grouped main_source
      in render_bucket main_source (zip sub_sources (take (length sub_sources) counts))
         @ render_report grouped rest (drop (length sub_sources) counts))"





text \<open>The bucket the amended grouping rule gives an observed value: the first canonical
  name, in configured order, that is not empty and is contained in the value as a
  case-insensitive substring, or \<open>Other\<close> when there is none.\<close>

definition canonical_bucket :: "(string \<Rightarrow> string) \<Rightarrow> string list \<Rightarrow> string \<Rightarrow> string" where
  "canonical_bucket lower main_lead_source source =
     (case find (\<lambda>main_source. main_source \<noteq> [] \<and> ci_contains lower source main_source)
             main_lead_source of
        Some main_source \<Rightarrow> main_source
      | None \<Rightarrow> ''Other'')"

text \<open>The five named lead types, and a contact whose \<open>lead_type\<close> is none of them.\<close>

definition named_types :: "string set" where
  "named_types = {''New Lead'', ''Duplicate'', ''Resubmitted'', ''Nurture'', ''Self Gen''}"

definition unnamed_type :: "contact \<Rightarrow> bool" where
  "unnamed_type l = (case get_prop l ''lead_type'' of None \<Rightarrow> True | Some t \<Rightarrow> t \<notin> named_types)"

section \<open>Example data\<close>

definition lead_facebook :: contact where
  "lead_facebook = \<lparr>cid = ''1'', properties = [''lead_source'' \<mapsto> ''Facebook Ads'']\<rparr>"

definition lead_google :: contact where
  "lead_google = \<lparr>cid = ''2'', properties = [''lead_source'' \<mapsto> ''Google'']\<rparr>"

definition lead_blank :: contact where
  "lead_blank = \<lparr>cid = ''3'', properties = Map.empty\<rparr>"

definition lead_new :: contact where
  "lead_new = \<lparr>cid = ''4'', properties = [''lead_type'' \<mapsto> ''New Lead'']\<rparr>"

definition lead_duplicate :: contact where
  "lead_duplicate = \<lparr>cid = ''5'', properties = [''lead_type'' \<mapsto> ''Duplicate'']\<rparr>"

definition lead_partner :: contact where
  "lead_partner = \<lparr>cid = ''6'', properties = [''lead_type'' \<mapsto> ''Partner'']\<rparr>"

definition lead_other_lead :: contact where
  "lead_other_lead = \<lparr>cid = ''7'', properties = [''lead_source'' \<mapsto> ''other_lead'']\<rparr>"

definition response_429 :: "contact response" where
  "response_429 = \<lparr>status_code = 429, response_text = ''Too Many Requests'',
                    json = \<lparr>results = None, paging = None\<rparr>\<rparr>"


definition page_one :: "contact response" where
  "page_one = \<lparr>status_code = 200, response_text = [],
                json = \<lparr>results = Some [lead_facebook, lead_google],
                        paging = Some (Paging (Some (Next (Some ''2''))))\<rparr>\<rparr>"

definition page_two :: "contact response" where
  "page_two = \<lparr>status_code = 200, response_text = [],
                json = \<lparr>results = Some [lead_blank], paging = None\<rparr>\<rparr>"



definition two_page_server :: "contact server" where
  "two_page_server evs =
     (case rev (request_cursors evs) of
        [] \<Rightarrow> response_429
      | None # earlier \<Rightarrow> page_one
      | Some cursor # earlier \<Rightarrow> page_two)"

text \<open>A server that answers every request with one page: the contacts that \<open>f\<close> gives
  for the request body.\<close>

fun last_request :: "event list \<Rightarrow> payload option" where
  "last_request [] = None"
| "last_request (Sleep d # evs) = last_request evs"
| "last_request (Post p # evs) = (case last_request evs of None \<Rightarrow> Some p | Some q \<Rightarrow> Some q)"

definition one_page_server :: "(payload \<Rightarrow> contact list) \<Rightarrow> contact server" where
  "one_page_server f evs =
     (case last_request evs of
        None \<Rightarrow> response_429
      | Some p \<Rightarrow> \<lparr>status_code = 200, response_text = [],
                   json = \<lparr>results = Some (f p), paging = None\<rparr>\<rparr>)"

text \<open>Two leads for a request that filters on the value \<open>facebook ads\<close>, one lead for
  any other request.\<close>

definition example_leads :: "payload \<Rightarrow> contact list" where
  "example_leads p =
     (if StrValue ''facebook ads'' \<in> set (map filter_value (concat (filterGroups p)))
      then [lead_facebook, lead_facebook] else [lead_blank])"

text \<open>Observed lead sources for the report example.\<close>

definition observed_sources :: "string list" where
  "observed_sources = [''facebook ads'', ''TikTok'', ''Facebook Lead'', ''facebook ads'']"






section \<open>Substring search\<close>

lemma startswith_iff: "startswith hay needle \<longleftrightarrow> (\<exists>post. hay = needle @ post)"
  by (induction hay needle rule: startswith.induct) auto

lemma str_in_iff: "str_in needle hay \<longleftrightarrow> (\<exists>pre post. hay = pre @ needle @ post)"
proof (induction hay)
  case Nil
  then show ?case by auto
next
  case (Cons h hs)
  show ?case
  proof
    assume "str_in needle (h # hs)"
    then consider "startswith (h # hs) needle" | "str_in needle hs" by auto
    then show "\<exists>pre post. h # hs = pre @ needle @ post"
    proof cases
      case 1
      then obtain post where "h # hs = needle @ post" unfolding startswith_iff by blast
      then have "h # hs = [] @ needle @ post" by simp
      then show ?thesis by blast
    next
      case 2
      then obtain pre post where "hs = pre @ needle @ post" using Cons.IH by blast
      then have "h # hs = (h # pre) @ needle @ post" by simp
      then show ?thesis by blast
    qed
  next
    assume "\<exists>pre post. h # hs = pre @ needle @ post"
    then obtain pre post where e: "h # hs = pre @ needle @ post" by blast
    show "str_in needle (h # hs)"
    proof (cases pre)
      case Nil
      then have "h # hs = needle @ post" using e by simp
      then have "\<exists>post. h # hs = needle @ post" by blast
      then have "startswith (h # hs) needle" by (simp only: startswith_iff)
      then show ?thesis by simp
    next
      case (Cons p ps)
      then have "hs = ps @ needle @ post" using e by simp
      then have "str_in needle hs" using Cons.IH by blast
      then show ?thesis by simp
    qed
  qed
qed

lemma str_in_lower_iff:
  "str_in (lower keyword) (lower hay) \<longleftrightarrow> ci_contains lower hay keyword"
  by (simp add: str_in_iff ci_contains_def)

lemma str_in_refl: "str_in xs xs"
  unfolding str_in_iff by (metis append_Nil append_Nil2)

text \<open>\<open>latin1_lower\<close> on the strings of the examples, and on a capital outside ASCII
  (code point 201, a capital E with an acute accent, goes to 233).\<close>

lemma lower_examples:
  "latin1_lower ''Facebook'' = ''facebook''" "latin1_lower ''Ads'' = ''ads''"
  "latin1_lower ''Facebook Ads'' = ''facebook ads''" "latin1_lower ''other_lead'' = ''other_lead''"
  "latin1_lower ''Google'' = ''google''" "latin1_lower ''face'' = ''face''"
  "latin1_lower [] = []"
  "latin1_lower [char_of (201 :: nat)] = [char_of (233 :: nat)]"
  by code_simp+

section \<open>Matching the lead source\<close>

lemma source_lead_facebook: "or_empty (get_prop lead_facebook ''lead_source'') = ''Facebook Ads''"
  by (simp add: lead_facebook_def get_prop_def or_empty_def)

lemma source_lead_google: "or_empty (get_prop lead_google ''lead_source'') = ''Google''"
  by (simp add: lead_google_def get_prop_def or_empty_def)

lemma source_lead_blank: "or_empty (get_prop lead_blank ''lead_source'') = []"
  by (simp add: lead_blank_def get_prop_def or_empty_def)

lemma face_in_facebook_ads: "str_in (latin1_lower ''face'') (latin1_lower ''Facebook Ads'')"
  by code_simp

lemma face_not_in_google: "\<not> str_in (latin1_lower ''face'') (latin1_lower ''Google'')"
  by code_simp

lemma face_not_in_empty: "\<not> str_in (latin1_lower ''face'') (latin1_lower [])"
  by code_simp

text \<open>The example of the spec: the keyword \<open>face\<close> matches \<open>Facebook Ads\<close> and neither
  \<open>Google\<close> nor a contact without \<open>lead_source\<close>.\<close>

lemma match_face:
  "match_lead_source latin1_lower [lead_facebook, lead_google, lead_blank] ''face'' = [lead_facebook]"
  by (simp add: match_lead_source_def source_lead_facebook source_lead_google source_lead_blank
      face_in_facebook_ads face_not_in_google face_not_in_empty)

text \<open>\<open>match_lead_source\<close> is the filter of the contacts whose \<open>lead_source\<close> (a missing
  one read as the empty string) contains the keyword as a case-insensitive substring.\<close>

lemma match_lead_source_filter:
  "match_lead_source lower leads keyword =
     [l \<leftarrow> leads. ci_contains lower (or_empty (get_prop l ''lead_source'')) keyword]"
  by (simp add: match_lead_source_def str_in_lower_iff)

text \<open>A keyword whose lower case is not empty never returns a contact whose
  \<open>lead_source\<close> is missing or empty.\<close>

lemma match_lead_source_nonempty:
  assumes "lower [] = []" and "lower keyword \<noteq> []"
    and "l \<in> set (match_lead_source lower leads keyword)"
  shows "truthy (get_prop l ''lead_source'')"
proof (rule ccontr)
  assume "\<not> truthy (get_prop l ''lead_source'')"
  then have "or_empty (get_prop l ''lead_source'') = []"
    by (cases "get_prop l ''lead_source''") (simp_all add: truthy_def or_empty_def)
  moreover have "str_in (lower keyword) (lower (or_empty (get_prop l ''lead_source'')))"
    using assms(3) by (simp add: match_lead_source_def)
  ultimately show False using assms(1,2) by simp
qed

lemma match_blank_lead_blank: "match_blank_lead_source [lead_blank] = [lead_blank]"
  by (simp add: match_blank_lead_source_def get_prop_def truthy_def lead_blank_def)

lemma match_empty_keyword: "match_lead_source lower [lead_blank] [] = [lead_blank]"
  by (simp add: match_lead_source_def source_lead_blank str_in_refl)

text \<open>
  C5. The code breaks the claim at the empty keyword. The empty string is a substring of
  the empty string, so \<open>match_lead_source\<close> called with the keyword \<open>""\<close> returns a contact
  that has no \<open>lead_source\<close>. The keyword is a configured canonical name after \<open>strip()\<close>,
  which may be empty: the bucket of the empty name in \<open>lead_sources\<close> then holds the
  contact that \<open>no_lead_source\<close> holds too. The grouping loop guards against the same
  name (\<open>source and main_source and ...\<close>) and never matches it.
\<close>

theorem match_lead_source_empty_keyword:
  "get_prop lead_blank ''lead_source'' = None
   \<and> match_lead_source latin1_lower [lead_blank] [] = [lead_blank]
   \<and> lead_sources latin1_lower [[]] [lead_blank]
       = [([], [lead_blank]), (''no_lead_source'', [lead_blank])]
   \<and> first_match latin1_lower [[]] ''facebook ads'' = None"
proof -
  have 1: "get_prop lead_blank ''lead_source'' = None"
    by (simp add: get_prop_def lead_blank_def)
  have 2: "match_lead_source latin1_lower [lead_blank] [] = [lead_blank]"
    by (rule match_empty_keyword)
  have 3: "lead_sources latin1_lower [[]] [lead_blank]
       = [([], [lead_blank]), (''no_lead_source'', [lead_blank])]"
    unfolding lead_sources_def by (simp add: 2 match_blank_lead_blank lower_examples)
  have 4: "first_match latin1_lower [[]] ''facebook ads'' = None"
    by simp
  show ?thesis using 1 2 3 4 by (intro conjI)
qed

section \<open>Lead types\<close>

lemma lead_types_eq:
  "lead_types leads =
     [(''new_lead'', filter_by_type leads ''New Lead''),
      (''duplicate_lead'', filter_by_type leads ''Duplicate''),
      (''resubmitted_lead'', filter_by_type leads ''Resubmitted''),
      (''nurture_lead'', filter_by_type leads ''Nurture''),
      (''self_gen_lead'', filter_by_type leads ''Self Gen'')]"
  by (simp add: lead_types_def)

lemma filter_by_type_disjoint:
  "a \<noteq> b \<Longrightarrow> set (filter_by_type leads a) \<inter> set (filter_by_type leads b) = {}"
  by (auto simp: filter_by_type_def)

lemma sum_len_lead_types:
  "sum_len (lead_types leads) =
     int (length [l \<leftarrow> leads. case get_prop l ''lead_type'' of None \<Rightarrow> False | Some t \<Rightarrow> t \<in> named_types])"
  unfolding lead_types_eq sum_len_def dict_values_def filter_by_type_def named_types_def
  by (induction leads) (auto split: option.splits)

lemma other_lead_eq:
  "other_lead leads =
     int (length [l \<leftarrow> leads. case get_prop l ''lead_type'' of None \<Rightarrow> True | Some t \<Rightarrow> t \<notin> named_types])"
proof -
  have "length leads =
      length [l \<leftarrow> leads. case get_prop l ''lead_type'' of None \<Rightarrow> False | Some t \<Rightarrow> t \<in> named_types]
    + length [l \<leftarrow> leads. case get_prop l ''lead_type'' of None \<Rightarrow> True | Some t \<Rightarrow> t \<notin> named_types]"
    by (induction leads) (auto split: option.splits)
  then show ?thesis unfolding other_lead_def sum_len_lead_types by simp
qed

text \<open>
  C10. The five named lead-type buckets are pairwise disjoint, and \<open>other_lead\<close>, the
  number of allocated leads minus the sizes of the five buckets, is never negative: it is
  the number of allocated contacts whose \<open>lead_type\<close> is none of the five named values.
\<close>

theorem lead_types_disjoint:
  "(\<forall>b1 \<in> set (lead_types leads). \<forall>b2 \<in> set (lead_types leads).
      fst b1 \<noteq> fst b2 \<longrightarrow> set (snd b1) \<inter> set (snd b2) = {})
   \<and> 0 \<le> other_lead leads
   \<and> other_lead leads = int (length [l \<leftarrow> leads. unnamed_type l])"
proof -
  have d: "\<forall>b1 \<in> set (lead_types leads). \<forall>b2 \<in> set (lead_types leads).
      fst b1 \<noteq> fst b2 \<longrightarrow> set (snd b1) \<inter> set (snd b2) = {}"
    unfolding lead_types_eq by (simp add: filter_by_type_disjoint)
  have e: "other_lead leads = int (length [l \<leftarrow> leads. unnamed_type l])"
    unfolding unnamed_type_def by (rule other_lead_eq)
  then have "0 \<le> other_lead leads" by simp
  then show ?thesis using d e by blast
qed

lemma types_example:
  "get_prop lead_new ''lead_type'' = Some ''New Lead''"
  "get_prop lead_duplicate ''lead_type'' = Some ''Duplicate''"
  "get_prop lead_partner ''lead_type'' = Some ''Partner''"
  "get_prop lead_blank ''lead_type'' = None"
  by (simp_all add: get_prop_def lead_new_def lead_duplicate_def lead_partner_def lead_blank_def)

lemma unnamed_example:
  "\<not> unnamed_type lead_new" "\<not> unnamed_type lead_duplicate"
  "unnamed_type lead_partner" "unnamed_type lead_blank"
  by (simp_all add: unnamed_type_def named_types_def types_example)

theorem lead_types_disjoint_witness:
  "filter_by_type [lead_new, lead_duplicate, lead_partner, lead_blank] ''New Lead'' = [lead_new]
   \<and> filter_by_type [lead_new, lead_duplicate, lead_partner, lead_blank] ''Duplicate'' = [lead_duplicate]
   \<and> set [lead_new] \<inter> set [lead_duplicate] = {}
   \<and> other_lead [lead_new, lead_duplicate, lead_partner, lead_blank] = 2"
proof -
  let ?leads = "[lead_new, lead_duplicate, lead_partner, lead_blank]"
  have n: "filter_by_type ?leads ''New Lead'' = [lead_new]"
    by (simp add: filter_by_type_def types_example)
  have u: "filter_by_type ?leads ''Duplicate'' = [lead_duplicate]"
    by (simp add: filter_by_type_def types_example)
  have m1: "(''new_lead'', [lead_new]) \<in> set (lead_types ?leads)"
    unfolding lead_types_eq n by simp
  have m2: "(''duplicate_lead'', [lead_duplicate]) \<in> set (lead_types ?leads)"
    unfolding lead_types_eq u by simp
  note t = lead_types_disjoint [of ?leads]
  from t have "\<forall>b1 \<in> set (lead_types ?leads). \<forall>b2 \<in> set (lead_types ?leads).
      fst b1 \<noteq> fst b2 \<longrightarrow> set (snd b1) \<inter> set (snd b2) = {}" by (rule conjunct1)
  from this m1 m2 have i: "set [lead_new] \<inter> set [lead_duplicate] = {}" by fastforce
  from t have "other_lead ?leads = int (length [l \<leftarrow> ?leads. unnamed_type l])" by blast
  then have o: "other_lead ?leads = 2" by (simp add: unnamed_example)
  show ?thesis using n u i o by (intro conjI)
qed

section \<open>The output record\<close>

lemma map_of_spread_len_notin:
  "k \<notin> fst ` set d \<Longrightarrow> map_of (spread_len d out) k = map_of out k"
  unfolding spread_len_def
  by (induction d arbitrary: out) (auto simp: update_conv')

lemma keys_foldl_update:
  "fst ` set (foldl (\<lambda>d source. AList.update (f source) (g source) d) init xs)
     = fst ` set init \<union> f ` set xs"
  by (induction xs arbitrary: init) (auto simp: dom_update)

lemma keys_lead_sources:
  "fst ` set (lead_sources lower main_lead_source leads_create)
     = insert ''no_lead_source'' (lower ` set main_lead_source)"
  unfolding lead_sources_def by (simp add: dom_update keys_foldl_update)

lemma keys_lifecycle_stage_dict:
  "fst ` set (lifecycle_stage_dict a b c d e f)
     = {''contact_count'', ''take_over_call_count'', ''take_over_text_count'',
        ''zoom_book_count'', ''zoom_attend_count'', ''deal_negotiation_count''}"
  unfolding lifecycle_stage_dict_def by (simp add: dom_update)

lemma foldl_update_distinct:
  "distinct (map f xs) \<Longrightarrow> f ` set xs \<inter> fst ` set init = {} \<Longrightarrow>
   foldl (\<lambda>d source. AList.update (f source) (g source) d) init xs
     = init @ map (\<lambda>source. (f source, g source)) xs"
proof (induction xs arbitrary: init)
  case Nil
  then show ?case by simp
next
  case (Cons x xs)
  have u: "AList.update (f x) (g x) init = init @ [(f x, g x)]"
    using Cons.prems(2) by (induction init) auto
  have "f ` set xs \<inter> fst ` set (init @ [(f x, g x)]) = {}"
    using Cons.prems by auto
  then show ?case using Cons.IH [of "init @ [(f x, g x)]"] Cons.prems(1) u by simp
qed

lemma update_append_new: "k \<notin> fst ` set al \<Longrightarrow> AList.update k v al = al @ [(k, v)]"
  by (induction al) auto

lemma lead_sources_distinct:
  assumes "distinct (map lower main_lead_source)"
    and "''no_lead_source'' \<notin> lower ` set main_lead_source"
  shows "lead_sources lower main_lead_source leads_create =
     map (\<lambda>source. (lower source, match_lead_source lower leads_create source)) main_lead_source
     @ [(''no_lead_source'', match_blank_lead_source leads_create)]"
proof -
  have f: "foldl (\<lambda>d source. AList.update (lower source) (match_lead_source lower leads_create source) d)
          [] main_lead_source
        = map (\<lambda>source. (lower source, match_lead_source lower leads_create source)) main_lead_source"
    using foldl_update_distinct [of lower main_lead_source "[]"] assms(1) by simp
  have "''no_lead_source'' \<notin> fst ` set (map (\<lambda>source. (lower source, match_lead_source lower leads_create source)) main_lead_source)"
    using assms(2) by (auto simp: image_iff)
  then show ?thesis unfolding lead_sources_def f by (rule update_append_new)
qed

lemma sum_len_lead_sources_distinct:
  assumes "distinct (map lower main_lead_source)"
    and "''no_lead_source'' \<notin> lower ` set main_lead_source"
  shows "sum_len (lead_sources lower main_lead_source leads_create) =
     (\<Sum>source \<leftarrow> main_lead_source. int (length (match_lead_source lower leads_create source)))
       + int (length (match_blank_lead_source leads_create))"
  unfolding lead_sources_distinct [OF assms] sum_len_def dict_values_def
  by (simp add: comp_def)

lemma other_lead_five:
  "other_lead la = int (length la)
        - (int (length (filter_by_type la ''New Lead''))
           + int (length (filter_by_type la ''Duplicate''))
           + int (length (filter_by_type la ''Resubmitted''))
           + int (length (filter_by_type la ''Nurture''))
           + int (length (filter_by_type la ''Self Gen'')))"
  unfolding other_lead_def lead_types_eq sum_len_def dict_values_def by simp

lemma spread_len_lead_types:
  "spread_len (lead_types la) [] =
     [(''new_lead'', IntVal (int (length (filter_by_type la ''New Lead'')))),
      (''duplicate_lead'', IntVal (int (length (filter_by_type la ''Duplicate'')))),
      (''resubmitted_lead'', IntVal (int (length (filter_by_type la ''Resubmitted'')))),
      (''nurture_lead'', IntVal (int (length (filter_by_type la ''Nurture'')))),
      (''self_gen_lead'', IntVal (int (length (filter_by_type la ''Self Gen''))))]"
  unfolding lead_types_eq spread_len_def by simp

text \<open>The entry of a key of the lead-type part of the record (the five buckets, the
  residual and the total) when no lead-source bucket has the same key: it is the entry
  the lead-type part wrote.\<close>

lemma output_lead_type_part:
  assumes "k \<in> {''new_lead'', ''duplicate_lead'', ''resubmitted_lead'', ''nurture_lead'',
                 ''self_gen_lead'', ''other_lead'', ''total_lead_allocate''}"
    and "k \<notin> lower ` set main"
  shows "map_of (output_dict lower main la lc (lifecycle_stage_dict s1 s2 s3 s4 s5 s6) cc sd ls) k
     = map_of (AList.update ''total_lead_allocate'' (IntVal (int (length la)))
                (AList.update ''other_lead'' (IntVal (other_lead la))
                  (spread_len (lead_types la) []))) k"
proof -
  have 1: "k \<notin> fst ` set (lifecycle_stage_dict s1 s2 s3 s4 s5 s6)"
    unfolding keys_lifecycle_stage_dict using assms(1) by auto
  have 2: "k \<notin> fst ` set (lead_sources lower main lc)"
    unfolding keys_lead_sources using assms by auto
  have 3: "k \<noteq> ''Lead Source Report''" "k \<noteq> ''Sales Direct Report''" "k \<noteq> ''CC TO Report''"
    "k \<noteq> ''total_lead_create''" "k \<noteq> ''other_source''"
    using assms(1) by auto
  show ?thesis
    unfolding output_dict_def
    by (simp only: update_conv' map_of_spread_len_notin [OF 1] map_of_spread_len_notin [OF 2]
        fun_upd_other [OF 3(1)] fun_upd_other [OF 3(2)] fun_upd_other [OF 3(3)]
        fun_upd_other [OF 3(4)] fun_upd_other [OF 3(5)])
qed

text \<open>
  Where no configured canonical name is, in lower case, a key of the lead-type part of the
  record, the record satisfies the equation of the claim between its own entries:
  \<open>other_lead\<close> is \<open>total_lead_allocate\<close> minus the five lead-type entries.
\<close>

lemma output_other_lead_residual:
  assumes "lower ` set main \<inter> {''new_lead'', ''duplicate_lead'', ''resubmitted_lead'',
             ''nurture_lead'', ''self_gen_lead'', ''other_lead'', ''total_lead_allocate''} = {}"
  shows "\<exists>residual total n1 n2 n3 n4 n5.
      map_of (output_dict lower main la lc (lifecycle_stage_dict s1 s2 s3 s4 s5 s6) cc sd ls)
        ''other_lead'' = Some (IntVal residual)
    \<and> map_of (output_dict lower main la lc (lifecycle_stage_dict s1 s2 s3 s4 s5 s6) cc sd ls)
        ''total_lead_allocate'' = Some (IntVal total)
    \<and> map_of (output_dict lower main la lc (lifecycle_stage_dict s1 s2 s3 s4 s5 s6) cc sd ls)
        ''new_lead'' = Some (IntVal n1)
    \<and> map_of (output_dict lower main la lc (lifecycle_stage_dict s1 s2 s3 s4 s5 s6) cc sd ls)
        ''duplicate_lead'' = Some (IntVal n2)
    \<and> map_of (output_dict lower main la lc (lifecycle_stage_dict s1 s2 s3 s4 s5 s6) cc sd ls)
        ''resubmitted_lead'' = Some (IntVal n3)
    \<and> map_of (output_dict lower main la lc (lifecycle_stage_dict s1 s2 s3 s4 s5 s6) cc sd ls)
        ''nurture_lead'' = Some (IntVal n4)
    \<and> map_of (output_dict lower main la lc (lifecycle_stage_dict s1 s2 s3 s4 s5 s6) cc sd ls)
        ''self_gen_lead'' = Some (IntVal n5)
    \<and> residual = total - (n1 + n2 + n3 + n4 + n5)"
proof -
  let ?out = "output_dict lower main la lc (lifecycle_stage_dict s1 s2 s3 s4 s5 s6) cc sd ls"
  have k: "''other_lead'' \<notin> lower ` set main" "''total_lead_allocate'' \<notin> lower ` set main"
    "''new_lead'' \<notin> lower ` set main" "''duplicate_lead'' \<notin> lower ` set main"
    "''resubmitted_lead'' \<notin> lower ` set main" "''nurture_lead'' \<notin> lower ` set main"
    "''self_gen_lead'' \<notin> lower ` set main"
    using assms by auto
  have 1: "map_of ?out ''other_lead'' = Some (IntVal (other_lead la))"
    by (subst output_lead_type_part [OF _ k(1)]) (simp_all add: update_conv')
  have 2: "map_of ?out ''total_lead_allocate'' = Some (IntVal (int (length la)))"
    by (subst output_lead_type_part [OF _ k(2)]) (simp_all add: update_conv')
  have 3: "map_of ?out ''new_lead'' = Some (IntVal (int (length (filter_by_type la ''New Lead''))))"
    by (subst output_lead_type_part [OF _ k(3)]) (simp_all add: update_conv' spread_len_lead_types)
  have 4: "map_of ?out ''duplicate_lead'' = Some (IntVal (int (length (filter_by_type la ''Duplicate''))))"
    by (subst output_lead_type_part [OF _ k(4)]) (simp_all add: update_conv' spread_len_lead_types)
  have 5: "map_of ?out ''resubmitted_lead'' = Some (IntVal (int (length (filter_by_type la ''Resubmitted''))))"
    by (subst output_lead_type_part [OF _ k(5)]) (simp_all add: update_conv' spread_len_lead_types)
  have 6: "map_of ?out ''nurture_lead'' = Some (IntVal (int (length (filter_by_type la ''Nurture''))))"
    by (subst output_lead_type_part [OF _ k(6)]) (simp_all add: update_conv' spread_len_lead_types)
  have 7: "map_of ?out ''self_gen_lead'' = Some (IntVal (int (length (filter_by_type la ''Self Gen''))))"
    by (subst output_lead_type_part [OF _ k(7)]) (simp_all add: update_conv' spread_len_lead_types)
  show ?thesis
    unfolding 1 2 3 4 5 6 7 using other_lead_five [of la] by blast
qed

text \<open>The entry \<open>other_source\<close> is written after the lead-source buckets and is always the
  number of created leads minus the sizes of the buckets of the dictionary
  \<open>lead_sources\<close>.\<close>

lemma output_other_source:
  "map_of (output_dict lower main la lc (lifecycle_stage_dict s1 s2 s3 s4 s5 s6) cc sd ls) ''other_source''
     = Some (IntVal (int (length lc)
         - sum_list (map (\<lambda>bucket. int (length bucket)) (dict_values (lead_sources lower main lc)))))"
proof -
  have 1: "''other_source'' \<notin> fst ` set (lifecycle_stage_dict s1 s2 s3 s4 s5 s6)"
    unfolding keys_lifecycle_stage_dict by simp
  show ?thesis
    unfolding output_dict_def
    by (simp add: update_conv' map_of_spread_len_notin 1 other_source_def sum_len_def)
qed

lemma str_in_examples:
  "str_in ''facebook'' ''facebook ads''" "str_in ''ads'' ''facebook ads''"
  "str_in ''other_lead'' ''other_lead''"
  by code_simp+

lemma match_overlap:
  "match_lead_source latin1_lower [lead_facebook] ''Facebook'' = [lead_facebook]"
  "match_lead_source latin1_lower [lead_facebook] ''Ads'' = [lead_facebook]"
  "match_blank_lead_source [lead_facebook] = []"
  by (simp_all add: match_lead_source_def match_blank_lead_source_def get_prop_def or_empty_def
      truthy_def lead_facebook_def lower_examples str_in_examples)

text \<open>A residual can be negative where buckets overlap: one created lead whose source
  contains two canonical names is counted in both buckets.\<close>

lemma other_source_overlap:
  "other_source latin1_lower [''Facebook'', ''Ads''] [lead_facebook] = - 1"
  unfolding other_source_def lead_sources_def sum_len_def dict_values_def
  by (simp add: match_overlap lower_examples)

lemma lead_sources_other_lead:
  "lead_sources latin1_lower [''other_lead''] [lead_other_lead]
      = [(''other_lead'', [lead_other_lead]), (''no_lead_source'', [])]"
proof -
  have m: "match_lead_source latin1_lower [lead_other_lead] ''other_lead'' = [lead_other_lead]"
    "match_blank_lead_source [lead_other_lead] = []"
    by (simp_all add: match_lead_source_def match_blank_lead_source_def get_prop_def or_empty_def
      truthy_def lead_other_lead_def lower_examples str_in_examples)
  show ?thesis unfolding lead_sources_def by (simp add: m lower_examples)
qed

lemma filter_by_type_Nil: "filter_by_type [] t = []"
  by (simp add: filter_by_type_def)

text \<open>
  C8. The code breaks the claim when a configured canonical lead source is named
  \<open>other_lead\<close>. The record is one dictionary: the sizes of the lead-source buckets are
  written into it after \<open>other_lead\<close>, under the lower-cased canonical names, and the
  bucket of that name replaces the residual. With this one canonical name, no allocated
  lead and one created lead of that source, the record holds \<open>other_lead = 1\<close> beside
  \<open>total_lead_allocate = 0\<close> and five lead-type entries that are \<open>0\<close>.
\<close>

theorem output_other_lead_overwritten:
  "map_of (output_dict latin1_lower [''other_lead''] [] [lead_other_lead]
       (lifecycle_stage_dict [] [] [] [] [] []) [] [] []) ''other_lead'' = Some (IntVal 1)
   \<and> map_of (output_dict latin1_lower [''other_lead''] [] [lead_other_lead]
       (lifecycle_stage_dict [] [] [] [] [] []) [] [] []) ''total_lead_allocate'' = Some (IntVal 0)
   \<and> map_of (output_dict latin1_lower [''other_lead''] [] [lead_other_lead]
       (lifecycle_stage_dict [] [] [] [] [] []) [] [] []) ''new_lead'' = Some (IntVal 0)
   \<and> map_of (output_dict latin1_lower [''other_lead''] [] [lead_other_lead]
       (lifecycle_stage_dict [] [] [] [] [] []) [] [] []) ''duplicate_lead'' = Some (IntVal 0)
   \<and> map_of (output_dict latin1_lower [''other_lead''] [] [lead_other_lead]
       (lifecycle_stage_dict [] [] [] [] [] []) [] [] []) ''resubmitted_lead'' = Some (IntVal 0)
   \<and> map_of (output_dict latin1_lower [''other_lead''] [] [lead_other_lead]
       (lifecycle_stage_dict [] [] [] [] [] []) [] [] []) ''nurture_lead'' = Some (IntVal 0)
   \<and> map_of (output_dict latin1_lower [''other_lead''] [] [lead_other_lead]
       (lifecycle_stage_dict [] [] [] [] [] []) [] [] []) ''self_gen_lead'' = Some (IntVal 0)"
proof -
  let ?out = "output_dict latin1_lower [''other_lead''] [] [lead_other_lead]
       (lifecycle_stage_dict [] [] [] [] [] []) [] [] []"
  have l: "''total_lead_allocate'' \<notin> latin1_lower ` set [''other_lead'']"
    "''new_lead'' \<notin> latin1_lower ` set [''other_lead'']"
    "''duplicate_lead'' \<notin> latin1_lower ` set [''other_lead'']"
    "''resubmitted_lead'' \<notin> latin1_lower ` set [''other_lead'']"
    "''nurture_lead'' \<notin> latin1_lower ` set [''other_lead'']"
    "''self_gen_lead'' \<notin> latin1_lower ` set [''other_lead'']"
    by (simp_all add: lower_examples)
  have 1: "map_of ?out ''other_lead'' = Some (IntVal 1)"
    unfolding output_dict_def lead_sources_other_lead
    apply (simp add: update_conv' map_of_spread_len_notin keys_lifecycle_stage_dict)
    apply (simp add: spread_len_def update_conv')
    done
  have 2: "map_of ?out ''total_lead_allocate'' = Some (IntVal 0)"
    by (subst output_lead_type_part [OF _ l(1)]) (simp_all add: update_conv')
  have 3: "map_of ?out ''new_lead'' = Some (IntVal 0)"
    by (subst output_lead_type_part [OF _ l(2)])
      (simp_all add: update_conv' spread_len_lead_types filter_by_type_Nil)
  have 4: "map_of ?out ''duplicate_lead'' = Some (IntVal 0)"
    by (subst output_lead_type_part [OF _ l(3)])
      (simp_all add: update_conv' spread_len_lead_types filter_by_type_Nil)
  have 5: "map_of ?out ''resubmitted_lead'' = Some (IntVal 0)"
    by (subst output_lead_type_part [OF _ l(4)])
      (simp_all add: update_conv' spread_len_lead_types filter_by_type_Nil)
  have 6: "map_of ?out ''nurture_lead'' = Some (IntVal 0)"
    by (subst output_lead_type_part [OF _ l(5)])
      (simp_all add: update_conv' spread_len_lead_types filter_by_type_Nil)
  have 7: "map_of ?out ''self_gen_lead'' = Some (IntVal 0)"
    by (subst output_lead_type_part [OF _ l(6)])
      (simp_all add: update_conv' spread_len_lead_types filter_by_type_Nil)
  show ?thesis using 1 2 3 4 5 6 7 by (intro conjI)
qed

section \<open>Grouping the lead sources\<close>

lemma first_match_find:
  "first_match lower main source =
     (if source = [] then None
      else find (\<lambda>main_source. main_source \<noteq> [] \<and> ci_contains lower source main_source) main)"
  by (induction main) (auto simp: str_in_lower_iff)

lemma first_match_in: "first_match lower main source = Some m \<Longrightarrow> m \<in> set main"
  by (induction main) (auto split: if_splits)

lemma map_of_init_fold:
  "map_of (foldl (\<lambda>d source. AList.update source [] d) d0 xs) k
     = (if k \<in> set xs then Some [] else map_of d0 k)"
  by (induction xs arbitrary: d0) (auto simp: update_conv')

lemma dict_get_init: "dict_get (grouped_sources_init main) k = []"
  unfolding dict_get_def grouped_sources_init_def
  by (simp add: update_conv' map_of_init_fold)

lemma keys_init_fold:
  "fst ` set (foldl (\<lambda>d source. AList.update source [] d) d0 xs) = fst ` set d0 \<union> set xs"
  by (induction xs arbitrary: d0) (auto simp: dom_update)

lemma keys_init: "fst ` set (grouped_sources_init main) = insert ''Other'' (set main)"
  unfolding grouped_sources_init_def by (simp add: dom_update keys_init_fold)

lemma keys_dict_append: "fst ` set (dict_append k x d) = fst ` set d"
  unfolding dict_append_def by (simp add: dom_map_entry)

lemma dict_get_append:
  "dict_get (dict_append k x d) k' =
     (if k' = k \<and> k \<in> fst ` set d then dict_get d k @ [x] else dict_get d k')"
proof -
  have "k \<in> fst ` set d \<longleftrightarrow> map_of d k \<noteq> None"
    by (simp add: map_of_eq_None_iff)
  then show ?thesis
    unfolding dict_get_def dict_append_def
    by (auto simp: map_of_map_entry split: option.splits)
qed

lemma keys_group_source:
  "fst ` set (group_source lower main g source) = fst ` set g"
  unfolding group_source_def by (auto simp: keys_dict_append split: option.splits)

lemma canonical_bucket_first_match:
  "source \<noteq> [] \<Longrightarrow>
   canonical_bucket lower main source = (case first_match lower main source of Some m \<Rightarrow> m | None \<Rightarrow> ''Other'')"
  unfolding canonical_bucket_def first_match_find by simp

lemma dict_get_group_source:
  assumes "fst ` set g = insert ''Other'' (set main)"
  shows "dict_get (group_source lower main g source) k =
     dict_get g k @ (if source \<noteq> [] \<and> canonical_bucket lower main source = k then [source] else [])"
proof (cases "source = []")
  case True
  then have "first_match lower main source = None" by (simp add: first_match_find)
  then show ?thesis using True by (simp add: group_source_def)
next
  case False
  show ?thesis
  proof (cases "first_match lower main source")
    case None
    then have "canonical_bucket lower main source = ''Other''"
      using False by (simp add: canonical_bucket_first_match)
    then show ?thesis using None False assms
      by (auto simp: group_source_def dict_get_append)
  next
    case (Some m)
    then have c: "canonical_bucket lower main source = m"
      using False by (simp add: canonical_bucket_first_match)
    have "m \<in> fst ` set g" using first_match_in [OF Some] assms by simp
    then show ?thesis using Some False c
      by (auto simp: group_source_def dict_get_append)
  qed
qed

lemma dict_get_foldl_group:
  assumes "fst ` set g = insert ''Other'' (set main)"
  shows "dict_get (foldl (group_source lower main) g sources) k =
     dict_get g k @ [s \<leftarrow> sources. s \<noteq> [] \<and> canonical_bucket lower main s = k]"
  using assms
proof (induction sources arbitrary: g)
  case Nil
  then show ?case by simp
next
  case (Cons s sources)
  have "fst ` set (group_source lower main g s) = insert ''Other'' (set main)"
    using Cons.prems by (simp add: keys_group_source)
  then have "dict_get (foldl (group_source lower main) (group_source lower main g s) sources) k =
     dict_get (group_source lower main g s) k @ [s \<leftarrow> sources. s \<noteq> [] \<and> canonical_bucket lower main s = k]"
    by (rule Cons.IH)
  then show ?case using dict_get_group_source [OF Cons.prems, of lower s k] by simp
qed

lemma dict_get_grouped_sources:
  "dict_get (grouped_sources lower main sources) k = [s \<leftarrow> sources. s \<noteq> [] \<and> canonical_bucket lower main s = k]"
  unfolding grouped_sources_def
  using dict_get_foldl_group [OF keys_init] by (simp add: dict_get_init)

text \<open>
  C6, as amended. The grouping step puts each observed non-empty \<open>lead_source\<close> value
  into exactly one bucket: that of the first canonical name, in configured order, that
  is not empty and is contained in the value as a case-insensitive substring (the lower
  case of the name is a substring of the lower case of the value), or \<open>Other\<close> when no
  such name exists. Each bucket holds exactly the observed values assigned to it, in the
  order they were observed.
\<close>

theorem grouped_sources_bucket:
  "dict_get (grouped_sources lower main sources) k
     = [s \<leftarrow> sources. s \<noteq> [] \<and> canonical_bucket lower main s = k]
   \<and> (source \<in> set sources \<and> source \<noteq> [] \<longrightarrow>
        source \<in> set (dict_get (grouped_sources lower main sources) (canonical_bucket lower main source))
        \<and> (\<forall>other. other \<noteq> canonical_bucket lower main source \<longrightarrow>
              source \<notin> set (dict_get (grouped_sources lower main sources) other)))"
  by (simp add: dict_get_grouped_sources)

lemma first_match_examples:
  "first_match latin1_lower [''Facebook'', ''Google''] ''facebook ads'' = Some ''Facebook''"
  "first_match latin1_lower [''Facebook'', ''Google''] ''Google Search'' = Some ''Google''"
  "first_match latin1_lower [''Facebook'', ''Google''] ''TikTok'' = None"
  "first_match latin1_lower [[], ''Facebook''] ''facebook ads'' = Some ''Facebook''"
  by code_simp+

lemma canonical_bucket_examples:
  "canonical_bucket latin1_lower [''Facebook'', ''Google''] ''facebook ads'' = ''Facebook''"
  "canonical_bucket latin1_lower [''Facebook'', ''Google''] ''Google Search'' = ''Google''"
  "canonical_bucket latin1_lower [''Facebook'', ''Google''] ''TikTok'' = ''Other''"
  by (simp_all add: canonical_bucket_first_match first_match_examples del: first_match.simps)

theorem grouped_sources_bucket_witness:
  "''TikTok'' \<in> set [''facebook ads'', ''Google Search'', ''TikTok''] \<and> ''TikTok'' \<noteq> []
   \<and> canonical_bucket latin1_lower [''Facebook'', ''Google''] ''TikTok'' = ''Other''
   \<and> dict_get (grouped_sources latin1_lower [''Facebook'', ''Google'']
         [''facebook ads'', ''Google Search'', ''TikTok'']) ''Facebook'' = [''facebook ads'']
   \<and> ''TikTok'' \<in> set (dict_get (grouped_sources latin1_lower [''Facebook'', ''Google'']
         [''facebook ads'', ''Google Search'', ''TikTok'']) ''Other'')
   \<and> ''TikTok'' \<notin> set (dict_get (grouped_sources latin1_lower [''Facebook'', ''Google'']
         [''facebook ads'', ''Google Search'', ''TikTok'']) ''Google'')"
proof -
  let ?main = "[''Facebook'', ''Google'']"
  let ?sources = "[''facebook ads'', ''Google Search'', ''TikTok'']"
  note t = grouped_sources_bucket [of latin1_lower ?main ?sources "''Facebook''" "''TikTok''"]
  have m: "''TikTok'' \<in> set ?sources" and n: "''TikTok'' \<noteq> []" by simp_all
  have c: "canonical_bucket latin1_lower ?main ''TikTok'' = ''Other''" by (rule canonical_bucket_examples)
  from t have "dict_get (grouped_sources latin1_lower ?main ?sources) ''Facebook''
      = [s \<leftarrow> ?sources. s \<noteq> [] \<and> canonical_bucket latin1_lower ?main s = ''Facebook'']" by (rule conjunct1)
  then have f: "dict_get (grouped_sources latin1_lower ?main ?sources) ''Facebook'' = [''facebook ads'']"
    by (simp add: canonical_bucket_examples)
  from t m n have r: "''TikTok'' \<in> set (dict_get (grouped_sources latin1_lower ?main ?sources) (canonical_bucket latin1_lower ?main ''TikTok''))
        \<and> (\<forall>other. other \<noteq> canonical_bucket latin1_lower ?main ''TikTok'' \<longrightarrow>
              ''TikTok'' \<notin> set (dict_get (grouped_sources latin1_lower ?main ?sources) other))"
    by blast
  then have o: "''TikTok'' \<in> set (dict_get (grouped_sources latin1_lower ?main ?sources) ''Other'')"
    unfolding c by (rule conjunct1)
  from r have "\<forall>other. other \<noteq> ''Other'' \<longrightarrow>
              ''TikTok'' \<notin> set (dict_get (grouped_sources latin1_lower ?main ?sources) other)"
    unfolding c by (rule conjunct2)
  then have g: "''TikTok'' \<notin> set (dict_get (grouped_sources latin1_lower ?main ?sources) ''Google'')"
    by simp
  show ?thesis using m n c f o g by (intro conjI)
qed

lemma empty_in_facebook_ads: "ci_contains latin1_lower ''facebook ads'' []"
proof -
  have "str_in (latin1_lower []) (latin1_lower ''facebook ads'')" by code_simp
  then show ?thesis by (simp only: str_in_lower_iff)
qed

text \<open>
  The claim as stated fails when the empty string is a canonical name: it is a substring
  of every value and comes first here, but the guard \<open>source and main_source and ...\<close>
  passes over it, and the value goes to the next canonical name that matches.
\<close>

theorem grouped_sources_counterexample:
  "ci_contains latin1_lower ''facebook ads'' []
   \<and> dict_get (grouped_sources latin1_lower [[], ''Facebook''] [''facebook ads'']) [] = []
   \<and> dict_get (grouped_sources latin1_lower [[], ''Facebook''] [''facebook ads'']) ''Facebook'' = [''facebook ads'']"
proof -
  have g: "grouped_sources latin1_lower [[], ''Facebook''] [''facebook ads'']
     = [([], []), (''Facebook'', [''facebook ads'']), (''Other'', [])]"
    by (simp add: grouped_sources_def grouped_sources_init_def group_source_def
        first_match_examples dict_append_def del: first_match.simps)
  show ?thesis unfolding g using empty_in_facebook_ads by (simp add: dict_get_def)
qed

section \<open>The retry loop\<close>





lemma request_cursors_append:
  "request_cursors (xs @ ys) = request_cursors xs @ request_cursors ys"
  by (induction xs rule: request_cursors.induct) auto









section \<open>Pagination\<close>

lemma py_range_pos: "0 < n \<Longrightarrow> py_range n = 0 # [1..n - 1]"
  by (simp add: py_range_def upto_rec1)

lemma attempt_loop_200:
  assumes "0 < retries" and "status_code (srv (evs @ [Sleep (2 / 10), Post p])) = 200"
  shows "attempt_loop srv p (py_range retries) evs
       = (Inr (srv (evs @ [Sleep (2 / 10), Post p])), evs @ [Sleep (2 / 10), Post p])"
  using assms by (simp add: py_range_pos Let_def)

lemma fetch_pages_protocol:
  assumes "0 < retries"
    and "cursor_protocol srv filters props page_limit aft evs rs"
  shows "fetch_pages srv filters props page_limit retries all_results aft evs
       = Some (Inr (all_results @ concat (map (\<lambda>r. get_results (json r)) rs)),
               evs @ page_events filters props page_limit aft rs)"
  using assms(2)
proof (induction rs arbitrary: all_results aft evs)
  case Nil
  then show ?case by simp
next
  case (Cons r rs)
  let ?p = "make_payload filters props page_limit aft"
  let ?evs = "evs @ [Sleep (2 / 10), Post ?p]"
  from Cons.prems have r: "srv ?evs = r" and ok: "status_code r = 200" by simp_all
  have loop: "attempt_loop srv ?p (py_range retries) evs = (Inr r, ?evs)"
    using attempt_loop_200 [OF assms(1), of srv evs ?p] r ok by simp
  show ?case
  proof (cases "rs = []")
    case True
    then have "\<not> truthy (get_after (json r))" using Cons.prems by simp
    then show ?thesis using True loop
      by (subst fetch_pages.simps) (simp add: Let_def)
  next
    case False
    then have t: "truthy (get_after (json r))"
      and rest: "cursor_protocol srv filters props page_limit (get_after (json r)) ?evs rs"
      using Cons.prems by simp_all
    have "fetch_pages srv filters props page_limit retries all_results aft evs
        = fetch_pages srv filters props page_limit retries
            (all_results @ get_results (json r)) (get_after (json r)) ?evs"
      using t loop by (subst fetch_pages.simps) (simp add: Let_def)
    then show ?thesis using Cons.IH [OF rest, of "all_results @ get_results (json r)"] by simp
  qed
qed

lemma after_make_payload:
  "after (make_payload filters props page_limit aft) = (if truthy aft then aft else None)"
  by (simp add: make_payload_def)

lemma request_cursors_protocol:
  assumes "cursor_protocol srv filters props page_limit aft evs rs"
  shows "request_cursors (page_events filters props page_limit aft rs)
       = (if truthy aft then aft else None) # map (\<lambda>r. get_after (json r)) (butlast rs)"
  using assms
proof (induction rs arbitrary: aft evs)
  case Nil
  then show ?case by simp
next
  case (Cons r rs)
  show ?case
  proof (cases "rs = []")
    case True
    then show ?thesis by (simp add: after_make_payload)
  next
    case False
    then have t: "truthy (get_after (json r))"
      and rest: "cursor_protocol srv filters props page_limit (get_after (json r))
          (evs @ [Sleep (2 / 10), Post (make_payload filters props page_limit aft)]) rs"
      using Cons.prems by simp_all
    show ?thesis using Cons.IH [OF rest] t False by (simp add: after_make_payload)
  qed
qed

lemma cursors_protocol:
  assumes "cursor_protocol srv filters props page_limit aft evs rs"
  shows "(\<forall>r \<in> set (butlast rs). truthy (get_after (json r)))
       \<and> \<not> truthy (get_after (json (last rs)))"
  using assms
proof (induction rs arbitrary: aft evs)
  case Nil
  then show ?case by simp
next
  case (Cons r rs)
  show ?case
  proof (cases "rs = []")
    case True
    then show ?thesis using Cons.prems by simp
  next
    case False
    then have t: "truthy (get_after (json r))"
      and rest: "cursor_protocol srv filters props page_limit (get_after (json r))
          (evs @ [Sleep (2 / 10), Post (make_payload filters props page_limit aft)]) rs"
      using Cons.prems by simp_all
    show ?thesis using Cons.IH [OF rest] t False by simp
  qed
qed

lemma fetch_pages_never_returns:
  assumes "0 < retries"
    and "\<forall>l. status_code (srv l) = 200 \<and> truthy (get_after (json (srv l)))"
  shows "fetch_pages srv filters props page_limit retries all_results aft evs = None"
proof -
  have "(0 < retries \<and> (\<forall>l. status_code (srv l) = 200 \<and> truthy (get_after (json (srv l)))))
          \<longrightarrow> False"
    if "fetch_pages srv filters props page_limit retries all_results aft evs = Some y" for y
    using that
  proof (rule fetch_pages.raw_induct [where P = "\<lambda>srv filters props page_limit retries all_results aft evs y.
      (0 < retries \<and> (\<forall>l. status_code (srv l) = 200 \<and> truthy (get_after (json (srv l)))))
          \<longrightarrow> False", rotated])
    fix f :: "'a server \<Rightarrow> filter list \<Rightarrow> string list option \<Rightarrow> int \<Rightarrow> int \<Rightarrow>
         'a list \<Rightarrow> string option \<Rightarrow> event list \<Rightarrow> ((error + 'a list) \<times> event list) option"
      and srv filters props page_limit retries all_results aft evs y
    assume IH: "\<And>srv' filters' props' page_limit' retries' all_results' aft' evs' y'.
        f srv' filters' props' page_limit' retries' all_results' aft' evs' = Some y' \<Longrightarrow>
        (0 < retries' \<and> (\<forall>l. status_code (srv' l) = 200 \<and> truthy (get_after (json (srv' l)))))
          \<longrightarrow> False"
      and body: "(case attempt_loop srv (make_payload filters props page_limit aft)
            (py_range retries) evs of
        (Inl e, evs') \<Rightarrow> Some (Inl e, evs')
      | (Inr response, evs') \<Rightarrow>
          let data = json response;
              all_results' = all_results @ get_results data;
              aft' = get_after data
          in if \<not> truthy aft' then Some (Inr all_results', evs')
             else f srv filters props page_limit retries all_results' aft' evs') = Some y"
    show "(0 < retries \<and> (\<forall>l. status_code (srv l) = 200 \<and> truthy (get_after (json (srv l)))))
          \<longrightarrow> False"
    proof
      assume inv: "0 < retries \<and> (\<forall>l. status_code (srv l) = 200 \<and> truthy (get_after (json (srv l))))"
      let ?p = "make_payload filters props page_limit aft"
      let ?evs = "evs @ [Sleep (2 / 10), Post ?p]"
      have loop: "attempt_loop srv ?p (py_range retries) evs = (Inr (srv ?evs), ?evs)"
        using attempt_loop_200 [of retries srv evs ?p] inv by simp
      have "truthy (get_after (json (srv ?evs)))" using inv by blast
      then have "f srv filters props page_limit retries
          (all_results @ get_results (json (srv ?evs))) (get_after (json (srv ?evs))) ?evs = Some y"
        using body loop by (simp add: Let_def)
      from IH [OF this] inv show False by blast
    qed
  qed
  then show ?thesis using assms
    by (cases "fetch_pages srv filters props page_limit retries all_results aft evs") auto
qed

text \<open>
  C3. For a run of successful pages that follows the cursor protocol,
  \<open>fetch_all_hubspot_contacts\<close> returns the \<open>results\<close> of all pages concatenated in cursor
  order, each page once; the first request carries no \<open>after\<close> and each later request the
  cursor of the response before it; and the loop stops at the first response whose cursor
  is absent or empty. It stops only then: against a server whose every response carries
  a cursor the function never returns.
\<close>

theorem fetch_all_pages:
  "(0 < retries \<and> cursor_protocol srv filters props page_limit None evs rs \<longrightarrow>
      fetch_all_hubspot_contacts srv filters props page_limit retries evs
        = Some (Inr (concat (map (\<lambda>r. get_results (json r)) rs)),
                evs @ page_events filters props page_limit None rs)
      \<and> request_cursors (page_events filters props page_limit None rs)
        = None # map (\<lambda>r. get_after (json r)) (butlast rs)
      \<and> (\<forall>r \<in> set (butlast rs). truthy (get_after (json r)))
      \<and> \<not> truthy (get_after (json (last rs))))
   \<and> (0 < retries \<and> (\<forall>l. status_code (srv l) = 200 \<and> truthy (get_after (json (srv l)))) \<longrightarrow>
      fetch_all_hubspot_contacts srv filters props page_limit retries evs = None)"
proof -
  have a: "fetch_all_hubspot_contacts srv filters props page_limit retries evs
        = Some (Inr (concat (map (\<lambda>r. get_results (json r)) rs)),
                evs @ page_events filters props page_limit None rs)
      \<and> request_cursors (page_events filters props page_limit None rs)
        = None # map (\<lambda>r. get_after (json r)) (butlast rs)
      \<and> (\<forall>r \<in> set (butlast rs). truthy (get_after (json r)))
      \<and> \<not> truthy (get_after (json (last rs)))"
    if h: "0 < retries \<and> cursor_protocol srv filters props page_limit None evs rs"
  proof -
    from h have r: "0 < retries" and c: "cursor_protocol srv filters props page_limit None evs rs"
      by simp_all
    have 1: "fetch_all_hubspot_contacts srv filters props page_limit retries evs
        = Some (Inr (concat (map (\<lambda>r. get_results (json r)) rs)),
                evs @ page_events filters props page_limit None rs)"
      unfolding fetch_all_hubspot_contacts_def
      using fetch_pages_protocol [OF r c, of "[]"] by simp
    have 2: "request_cursors (page_events filters props page_limit None rs)
        = None # map (\<lambda>r. get_after (json r)) (butlast rs)"
      using request_cursors_protocol [OF c] by (simp add: truthy_def)
    show ?thesis using 1 2 cursors_protocol [OF c] by blast
  qed
  have b: "fetch_all_hubspot_contacts srv filters props page_limit retries evs = None"
    if "0 < retries \<and> (\<forall>l. status_code (srv l) = 200 \<and> truthy (get_after (json (srv l))))"
    unfolding fetch_all_hubspot_contacts_def
    using that fetch_pages_never_returns [of retries srv] by blast
  show ?thesis using a b by blast
qed

section \<open>Runs of the client against the example servers\<close>



lemma after_example_payload: "after (make_payload [] None 100 None) = None"
  by (simp add: make_payload_def truthy_def)




theorem fetch_all_pages_witness:
  "fetch_all_hubspot_contacts two_page_server [] None 100 3 []
     = Some (Inr [lead_facebook, lead_google, lead_blank],
         [Sleep (1 / 5), Post (make_payload [] None 100 None),
          Sleep (1 / 5), Post (make_payload [] None 100 (Some ''2''))])
   \<and> request_cursors
         [Sleep (1 / 5), Post (make_payload [] None 100 None),
          Sleep (1 / 5), Post (make_payload [] None 100 (Some ''2''))] = [None, Some ''2'']"
proof -
  let ?p0 = "make_payload [] None 100 None"
  let ?p1 = "make_payload [] None 100 (Some ''2'')"
  have a0: "after ?p0 = None" and a1: "after ?p1 = Some ''2''"
    by (simp_all add: make_payload_def truthy_def)
  have s1: "two_page_server [Sleep (1 / 5), Post ?p0] = page_one"
    by (simp add: two_page_server_def a0)
  have s2: "two_page_server [Sleep (1 / 5), Post ?p0, Sleep (1 / 5), Post ?p1] = page_two"
    by (simp add: two_page_server_def a0 a1)
  have g1: "get_after (json page_one) = Some ''2''" and g2: "get_after (json page_two) = None"
    by (simp_all add: page_one_def page_two_def get_after_def)
  have st: "status_code page_one = 200" "status_code page_two = 200"
    by (simp_all add: page_one_def page_two_def)
  have c: "cursor_protocol two_page_server [] None 100 None [] [page_one, page_two]"
    by (simp add: s1 s2 g1 g2 st truthy_def)
  have r: "(0::int) < 3" by simp
  from fetch_all_pages [of 3 two_page_server "[]" None 100 "[]" "[page_one, page_two]"] r c
  have "fetch_all_hubspot_contacts two_page_server [] None 100 3 []
        = Some (Inr (concat (map (\<lambda>r. get_results (json r)) [page_one, page_two])),
                [] @ page_events [] None 100 None [page_one, page_two])"
    and "request_cursors (page_events [] None 100 None [page_one, page_two])
        = None # map (\<lambda>r. get_after (json r)) (butlast [page_one, page_two])"
    by blast+
  moreover have "concat (map (\<lambda>r. get_results (json r)) [page_one, page_two])
      = [lead_facebook, lead_google, lead_blank]"
    by (simp add: get_results_def page_one_def page_two_def)
  moreover have "page_events [] None 100 None [page_one, page_two]
      = [Sleep (1 / 5), Post ?p0, Sleep (1 / 5), Post ?p1]"
    by (simp add: g1)
  ultimately show ?thesis by (simp add: g1)
qed

section \<open>The lead-source report\<close>

lemma bind_Inr:
  "bind m f evs = Some (Inr y, evs') \<longleftrightarrow>
     (\<exists>x evs1. m evs = Some (Inr x, evs1) \<and> f x evs1 = Some (Inr y, evs'))"
  unfolding bind_def by (auto split: option.splits sum.splits prod.splits)

lemma return_Inr: "return x evs = Some (Inr y, evs') \<longleftrightarrow> y = x \<and> evs' = evs"
  unfolding return_def by auto

lemma bind_return: "bind (return x) f = f x"
  by (rule ext) (simp add: bind_def return_def)

lemma bind_assoc: "bind (bind m f) g = bind m (\<lambda>x. bind (f x) g)"
  by (rule ext) (simp add: bind_def split: option.splits prod.splits sum.splits)

lemma bind_cong_result:
  assumes "\<And>x evs evs'. m evs = Some (Inr x, evs') \<Longrightarrow> f x evs' = g x evs'"
  shows "bind m f = bind m g"
  by (rule ext) (simp add: bind_def assms split: option.splits prod.splits sum.splits)

lemma count_each_length:
  "count_each srv s e subs evs = Some (Inr cs, evs') \<Longrightarrow> length cs = length subs"
  by (induction subs arbitrary: cs evs) (auto simp: bind_Inr return_Inr)

lemma count_each_append:
  assumes "count_each srv s e xs evs = Some (Inr cs1, evs1)"
    and "count_each srv s e ys evs1 = Some (Inr cs2, evs2)"
  shows "count_each srv s e (xs @ ys) evs = Some (Inr (cs1 @ cs2), evs2)"
  using assms
proof (induction xs arbitrary: cs1 evs)
  case Nil
  then show ?case by (simp add: return_Inr)
next
  case (Cons x xs)
  from Cons.prems(1) obtain c evs' cs where
    c: "get_count_lead_source srv s e x evs = Some (Inr c, evs')"
    and r: "count_each srv s e xs evs' = Some (Inr cs, evs1)" and e: "cs1 = c # cs"
    by (auto simp: bind_Inr return_Inr)
  from Cons.IH [OF r Cons.prems(2)] c e show ?case
    by (auto simp: bind_Inr return_Inr)
qed

lemma sub_source_loop_counts:
  assumes "sub_source_loop srv s e subs main_count sub_lines evs = Some (Inr (main_count', sub_lines'), evs')"
  shows "\<exists>cs. count_each srv s e subs evs = Some (Inr cs, evs')
            \<and> main_count' = main_count + sum_list cs
            \<and> sub_lines' = sub_lines @ map (\<lambda>(sub_source, count). sub_source @ '': '' @ str_nat count) (zip subs cs)"
  using assms
proof (induction subs arbitrary: main_count sub_lines evs)
  case Nil
  then show ?case by (simp add: return_Inr)
next
  case (Cons x xs)
  from Cons.prems obtain c evs1 where
    c: "get_count_lead_source srv s e x evs = Some (Inr c, evs1)"
    and r: "sub_source_loop srv s e xs (main_count + c) (sub_lines @ [x @ '': '' @ str_nat c]) evs1
              = Some (Inr (main_count', sub_lines'), evs')"
    by (auto simp: bind_Inr)
  from Cons.IH [OF r] obtain cs where
    cs: "count_each srv s e xs evs1 = Some (Inr cs, evs')"
    and m: "main_count' = main_count + c + sum_list cs"
    and l: "sub_lines' = (sub_lines @ [x @ '': '' @ str_nat c])
              @ map (\<lambda>(sub_source, count). sub_source @ '': '' @ str_nat count) (zip xs cs)"
    by blast
  have "count_each srv s e (x # xs) evs = Some (Inr (c # cs), evs')"
    using c cs by (auto simp: bind_Inr return_Inr)
  then show ?case using m l by auto
qed

lemma render_bucket_rows:
  "rows \<noteq> [] \<Longrightarrow>
   render_bucket name rows =
     (name @ '': '' @ str_nat (sum_list (map snd rows)))
     # map (\<lambda>(sub_source, count). sub_source @ '': '' @ str_nat count) rows @ [[]]"
  by (cases rows) simp_all

lemma sorted_set_sub_sources: "sorted_set (dict_get grouped m) = sub_sources_of grouped m"
  by (simp add: sorted_set_def sub_sources_of_def)

lemma output_lead_source_loop_render:
  assumes "output_lead_source_loop srv s e grouped keys out evs = Some (Inr lines, evs')"
  shows "\<exists>counts. length counts = length keys
      \<and> count_each srv s e (concat (map (sub_sources_of grouped) keys)) evs
           = Some (Inr (concat counts), evs')
      \<and> list_all2 (\<lambda>m cs. length cs = length (sub_sources_of grouped m)) keys counts
      \<and> lines = out @ concat (map (\<lambda>(m, cs). render_bucket m (zip (sub_sources_of grouped m) cs))
                                (zip keys counts))"
  using assms
proof (induction keys arbitrary: out evs)
  case Nil
  then have "lines = out" "evs' = evs" by (simp_all add: return_Inr)
  then have "length ([] :: nat list list) = length ([] :: string list)
      \<and> count_each srv s e (concat (map (sub_sources_of grouped) [])) evs
           = Some (Inr (concat []), evs')
      \<and> list_all2 (\<lambda>m cs. length cs = length (sub_sources_of grouped m)) [] []
      \<and> lines = out @ concat (map (\<lambda>(m, cs). render_bucket m (zip (sub_sources_of grouped m) cs))
                                (zip [] []))"
    by (simp add: return_def)
  then show ?case by blast
next
  case (Cons m keys)
  let ?subs = "sub_sources_of grouped m"
  show ?case
  proof (cases "?subs = []")
    case True
    then have "output_lead_source_loop srv s e grouped keys out evs = Some (Inr lines, evs')"
      using Cons.prems by (simp add: sorted_set_sub_sources)
    from Cons.IH [OF this] obtain counts where
      l: "length counts = length keys"
      and c: "count_each srv s e (concat (map (sub_sources_of grouped) keys)) evs
           = Some (Inr (concat counts), evs')"
      and a: "list_all2 (\<lambda>m cs. length cs = length (sub_sources_of grouped m)) keys counts"
      and r: "lines = out @ concat (map (\<lambda>(m, cs). render_bucket m (zip (sub_sources_of grouped m) cs))
                                (zip keys counts))"
      by blast
    have "length ([] # counts) = length (m # keys)
      \<and> count_each srv s e (concat (map (sub_sources_of grouped) (m # keys))) evs
           = Some (Inr (concat ([] # counts)), evs')
      \<and> list_all2 (\<lambda>m cs. length cs = length (sub_sources_of grouped m)) (m # keys) ([] # counts)
      \<and> lines = out @ concat (map (\<lambda>(m, cs). render_bucket m (zip (sub_sources_of grouped m) cs))
                                (zip (m # keys) ([] # counts)))"
      using True l c a r by simp
    then show ?thesis by blast
  next
    case False
    with Cons.prems obtain main_count sub_lines evs1 where
      sl: "sub_source_loop srv s e ?subs 0 [] evs = Some (Inr (main_count, sub_lines), evs1)"
      and rest: "output_lead_source_loop srv s e grouped keys
          (out @ [m @ '': '' @ str_nat main_count] @ sub_lines @ [[]]) evs1 = Some (Inr lines, evs')"
      by (auto simp: sorted_set_sub_sources bind_Inr)
    from sub_source_loop_counts [OF sl] obtain cs where
      cs: "count_each srv s e ?subs evs = Some (Inr cs, evs1)"
      and mc: "main_count = sum_list cs"
      and sls: "sub_lines = map (\<lambda>(sub_source, count). sub_source @ '': '' @ str_nat count) (zip ?subs cs)"
      by auto
    have len: "length cs = length ?subs" using count_each_length [OF cs] .
    then have ne: "zip ?subs cs \<noteq> []" using False by (cases ?subs; cases cs) auto
    have sum: "sum_list (map snd (zip ?subs cs)) = sum_list cs" using len by simp
    have block: "render_bucket m (zip ?subs cs) = [m @ '': '' @ str_nat main_count] @ sub_lines @ [[]]"
      using render_bucket_rows [OF ne, of m] sum mc sls by simp
    from Cons.IH [OF rest] obtain counts where
      l: "length counts = length keys"
      and c: "count_each srv s e (concat (map (sub_sources_of grouped) keys)) evs1
           = Some (Inr (concat counts), evs')"
      and a: "list_all2 (\<lambda>m cs. length cs = length (sub_sources_of grouped m)) keys counts"
      and r: "lines = (out @ [m @ '': '' @ str_nat main_count] @ sub_lines @ [[]])
                @ concat (map (\<lambda>(m, cs). render_bucket m (zip (sub_sources_of grouped m) cs))
                                (zip keys counts))"
      by blast
    have c': "count_each srv s e (concat (map (sub_sources_of grouped) (m # keys))) evs
           = Some (Inr (concat (cs # counts)), evs')"
      using count_each_append [OF cs c] by simp
    have "length (cs # counts) = length (m # keys)
      \<and> count_each srv s e (concat (map (sub_sources_of grouped) (m # keys))) evs
           = Some (Inr (concat (cs # counts)), evs')
      \<and> list_all2 (\<lambda>m cs. length cs = length (sub_sources_of grouped m)) (m # keys) (cs # counts)
      \<and> lines = out @ concat (map (\<lambda>(m, cs). render_bucket m (zip (sub_sources_of grouped m) cs))
                                (zip (m # keys) (cs # counts)))"
      using l c' a r len block by simp
    then show ?thesis by blast
  qed
qed

lemma sub_sources_of_sorted:
  "sorted (sub_sources_of grouped m) \<and> distinct (sub_sources_of grouped m)
   \<and> set (sub_sources_of grouped m) = set (dict_get grouped m)"
  by (simp add: sub_sources_of_def)

text \<open>The report loop is the fetch of the counts of all sub-sources, bucket after bucket,
  followed by the rendering.\<close>

lemma count_each_append_eq:
  "count_each srv s e (xs @ ys) =
     bind (count_each srv s e xs) (\<lambda>a. bind (count_each srv s e ys) (\<lambda>b. return (a @ b)))"
proof (induction xs)
  case Nil
  have "bind (count_each srv s e ys) return = count_each srv s e ys"
    by (rule ext) (simp add: bind_def return_def split: option.splits prod.splits sum.splits)
  then show ?case by (simp add: bind_return)
next
  case (Cons x xs)
  then show ?case by (simp add: bind_assoc bind_return)
qed

lemma sub_source_loop_eq:
  "sub_source_loop srv s e subs main_count sub_lines =
     bind (count_each srv s e subs) (\<lambda>cs.
       return (main_count + sum_list cs,
               sub_lines @ map (\<lambda>(sub_source, count). sub_source @ '': '' @ str_nat count)
                             (zip subs cs)))"
proof (induction subs arbitrary: main_count sub_lines)
  case Nil
  then show ?case by (simp add: bind_return)
next
  case (Cons x xs)
  then show ?case by (simp add: bind_assoc bind_return add.assoc)
qed

lemma render_report_Cons:
  assumes "length a = length (sub_sources_of grouped m)"
  shows "render_report grouped (m # keys) (a @ b)
       = render_bucket m (zip (sub_sources_of grouped m) a) @ render_report grouped keys b"
  using assms by (simp add: Let_def)

lemma output_lead_source_loop_eq:
  "output_lead_source_loop srv s e grouped keys out =
     bind (count_each srv s e (concat (map (sub_sources_of grouped) keys)))
       (\<lambda>cs. return (out @ render_report grouped keys cs))"
proof (induction keys arbitrary: out)
  case Nil
  then show ?case by (simp add: bind_return)
next
  case (Cons m keys)
  let ?subs = "sub_sources_of grouped m"
  let ?rest = "concat (map (sub_sources_of grouped) keys)"
  have rhs: "bind (count_each srv s e (concat (map (sub_sources_of grouped) (m # keys))))
       (\<lambda>cs. return (out @ render_report grouped (m # keys) cs))
     = bind (count_each srv s e ?subs) (\<lambda>a. bind (count_each srv s e ?rest) (\<lambda>b.
         return (out @ render_bucket m (zip ?subs a) @ render_report grouped keys b)))"
  proof -
    have "bind (count_each srv s e (concat (map (sub_sources_of grouped) (m # keys))))
       (\<lambda>cs. return (out @ render_report grouped (m # keys) cs))
     = bind (count_each srv s e ?subs) (\<lambda>a. bind (count_each srv s e ?rest) (\<lambda>b.
         return (out @ render_report grouped (m # keys) (a @ b))))"
      by (simp add: count_each_append_eq bind_assoc bind_return del: render_report.simps)
    also have "\<dots> = bind (count_each srv s e ?subs) (\<lambda>a. bind (count_each srv s e ?rest) (\<lambda>b.
         return (out @ render_bucket m (zip ?subs a) @ render_report grouped keys b)))"
      by (rule bind_cong_result) (simp only: render_report_Cons [OF count_each_length])
    finally show ?thesis .
  qed
  show ?case
  proof (cases "?subs = []")
    case True
    have "bind (count_each srv s e ?subs) (\<lambda>a. bind (count_each srv s e ?rest) (\<lambda>b.
         return (out @ render_bucket m (zip ?subs a) @ render_report grouped keys b)))
       = bind (count_each srv s e ?rest) (\<lambda>b. return (out @ render_report grouped keys b))"
      by (simp add: True bind_return)
    then show ?thesis unfolding rhs using True Cons.IH [of out]
      by (simp add: sorted_set_sub_sources)
  next
    case False
    have block: "render_bucket m (zip ?subs a)
        = [m @ '': '' @ str_nat (sum_list a)]
          @ map (\<lambda>(sub_source, count). sub_source @ '': '' @ str_nat count) (zip ?subs a) @ [[]]"
      if "length a = length ?subs" for a
    proof -
      have ne: "zip ?subs a \<noteq> []" using False that by (cases ?subs; cases a) auto
      have "sum_list (map snd (zip ?subs a)) = sum_list a" using that by simp
      then show ?thesis using render_bucket_rows [OF ne, of m] by simp
    qed
    have "output_lead_source_loop srv s e grouped (m # keys) out
        = bind (count_each srv s e ?subs) (\<lambda>a. bind (count_each srv s e ?rest) (\<lambda>b.
            return ((out @ [m @ '': '' @ str_nat (sum_list a)]
                       @ map (\<lambda>(sub_source, count). sub_source @ '': '' @ str_nat count) (zip ?subs a)
                       @ [[]])
                    @ render_report grouped keys b)))"
      using False
      by (simp add: sorted_set_sub_sources sub_source_loop_eq bind_assoc bind_return Cons.IH
          Let_def)
    also have "\<dots> = bind (count_each srv s e ?subs) (\<lambda>a. bind (count_each srv s e ?rest) (\<lambda>b.
         return (out @ render_bucket m (zip ?subs a) @ render_report grouped keys b)))"
      by (rule bind_cong_result) (simp add: block [OF count_each_length])
    finally show ?thesis unfolding rhs .
  qed
qed

text \<open>
  C7. The lead-source report renders the buckets of the canonical sources in configured
  order and \<open>Other\<close> last. A bucket with sub-sources gives the header
  \<open><name>: <sum of the counts of its sub-sources>\<close>, one line \<open><sub-source>: <count>\<close>
  per sub-source, the sub-sources deduplicated and in ascending order, and a blank line;
  a bucket without sub-sources gives no line at all. The counts are those fetched, one
  sub-source after another, by \<open>get_count_lead_source\<close>: the report loop is this fetch
  followed by the rendering. So the report is produced whenever these counts are
  returned; it fails or does not return exactly as their fetch does.
\<close>

theorem lead_source_report:
  "output_lead_source srv start_ts end_ts main_lead_source grouped
     = bind (count_each srv start_ts end_ts
               (concat (map (sub_sources_of grouped) (main_lead_source @ [''Other'']))))
         (\<lambda>counts. return (render_report grouped (main_lead_source @ [''Other'']) counts))
   \<and> (count_each srv start_ts end_ts
          (concat (map (sub_sources_of grouped) (main_lead_source @ [''Other'']))) evs
        = Some (Inr counts, evs1) \<longrightarrow>
      output_lead_source srv start_ts end_ts main_lead_source grouped evs
        = Some (Inr (render_report grouped (main_lead_source @ [''Other'']) counts), evs1))
   \<and> (output_lead_source srv start_ts end_ts main_lead_source grouped evs = Some (Inr lines, evs') \<longrightarrow>
      (\<exists>counts. length counts = length (main_lead_source @ [''Other''])
         \<and> list_all2 (\<lambda>m cs. length cs = length (sub_sources_of grouped m))
              (main_lead_source @ [''Other'']) counts
         \<and> count_each srv start_ts end_ts
              (concat (map (sub_sources_of grouped) (main_lead_source @ [''Other'']))) evs
              = Some (Inr (concat counts), evs')
         \<and> lines = concat (map (\<lambda>(m, cs). render_bucket m (zip (sub_sources_of grouped m) cs))
                              (zip (main_lead_source @ [''Other'']) counts))))
   \<and> render_report grouped [] counts = []
   \<and> render_report grouped (m # keys) counts
        = render_bucket m (zip (sub_sources_of grouped m)
                               (take (length (sub_sources_of grouped m)) counts))
          @ render_report grouped keys (drop (length (sub_sources_of grouped m)) counts)
   \<and> sorted (sub_sources_of grouped m) \<and> distinct (sub_sources_of grouped m)
   \<and> set (sub_sources_of grouped m) = set (dict_get grouped m)
   \<and> render_bucket m [] = []
   \<and> render_bucket m (row # rows)
        = (m @ '': '' @ str_nat (sum_list (map snd (row # rows))))
          # map (\<lambda>(sub_source, count). sub_source @ '': '' @ str_nat count) (row # rows) @ [[]]"
proof -
  have q: "output_lead_source srv start_ts end_ts main_lead_source grouped
     = bind (count_each srv start_ts end_ts
               (concat (map (sub_sources_of grouped) (main_lead_source @ [''Other'']))))
         (\<lambda>counts. return (render_report grouped (main_lead_source @ [''Other'']) counts))"
    by (simp only: output_lead_source_def output_lead_source_loop_eq append_Nil)
  have t: "count_each srv start_ts end_ts
          (concat (map (sub_sources_of grouped) (main_lead_source @ [''Other'']))) evs
        = Some (Inr counts, evs1) \<longrightarrow>
      output_lead_source srv start_ts end_ts main_lead_source grouped evs
        = Some (Inr (render_report grouped (main_lead_source @ [''Other'']) counts), evs1)"
    unfolding q by (simp add: bind_def return_def)
  have a: "output_lead_source srv start_ts end_ts main_lead_source grouped evs = Some (Inr lines, evs') \<longrightarrow>
      (\<exists>counts. length counts = length (main_lead_source @ [''Other''])
         \<and> list_all2 (\<lambda>m cs. length cs = length (sub_sources_of grouped m))
              (main_lead_source @ [''Other'']) counts
         \<and> count_each srv start_ts end_ts
              (concat (map (sub_sources_of grouped) (main_lead_source @ [''Other'']))) evs
              = Some (Inr (concat counts), evs')
         \<and> lines = concat (map (\<lambda>(m, cs). render_bucket m (zip (sub_sources_of grouped m) cs))
                              (zip (main_lead_source @ [''Other'']) counts)))"
  proof
    assume "output_lead_source srv start_ts end_ts main_lead_source grouped evs = Some (Inr lines, evs')"
    then have "output_lead_source_loop srv start_ts end_ts grouped (main_lead_source @ [''Other'']) [] evs
        = Some (Inr lines, evs')" by (simp add: output_lead_source_def)
    from output_lead_source_loop_render [OF this]
    show "\<exists>counts. length counts = length (main_lead_source @ [''Other''])
         \<and> list_all2 (\<lambda>m cs. length cs = length (sub_sources_of grouped m))
              (main_lead_source @ [''Other'']) counts
         \<and> count_each srv start_ts end_ts
              (concat (map (sub_sources_of grouped) (main_lead_source @ [''Other'']))) evs
              = Some (Inr (concat counts), evs')
         \<and> lines = concat (map (\<lambda>(m, cs). render_bucket m (zip (sub_sources_of grouped m) cs))
                              (zip (main_lead_source @ [''Other'']) counts))"
      by (metis (no_types, lifting) append_Nil)
  qed
  have r: "render_report grouped [] counts = []"
    "render_report grouped (m # keys) counts
        = render_bucket m (zip (sub_sources_of grouped m)
                               (take (length (sub_sources_of grouped m)) counts))
          @ render_report grouped keys (drop (length (sub_sources_of grouped m)) counts)"
    by (simp_all add: Let_def)
  have b: "sorted (sub_sources_of grouped m)" "distinct (sub_sources_of grouped m)"
    "set (sub_sources_of grouped m) = set (dict_get grouped m)"
    using sub_sources_of_sorted [of grouped m] by simp_all
  have c: "render_bucket m [] = []"
    "render_bucket m (row # rows)
        = (m @ '': '' @ str_nat (sum_list (map snd (row # rows))))
          # map (\<lambda>(sub_source, count). sub_source @ '': '' @ str_nat count) (row # rows) @ [[]]"
    by simp_all
  show ?thesis using q t a r b c by (intro conjI)
qed

lemma last_request_post: "last_request (evs @ [Post p]) = Some p"
  by (induction evs rule: last_request.induct) auto

lemma one_page_server_post:
  "one_page_server f (evs @ [Sleep d, Post p])
     = \<lparr>status_code = 200, response_text = [], json = \<lparr>results = Some (f p), paging = None\<rparr>\<rparr>"
  using last_request_post [of "evs @ [Sleep d]" p] by (simp add: one_page_server_def)

lemma fetch_one_page:
  "fetch (one_page_server f) filters props evs
     = Some (Inr (f (make_payload filters props 100 None)),
             evs @ [Sleep (2 / 10), Post (make_payload filters props 100 None)])"
proof -
  let ?p = "make_payload filters props 100 None"
  let ?r = "\<lparr>status_code = 200, response_text = [], json = \<lparr>results = Some (f ?p), paging = None\<rparr>\<rparr>"
  have "cursor_protocol (one_page_server f) filters props 100 None evs [?r]"
    by (simp add: one_page_server_post get_after_def truthy_def)
  from fetch_pages_protocol [OF _ this, of 3 "[]"] show ?thesis
    by (simp add: fetch_def fetch_all_hubspot_contacts_def get_results_def)
qed

lemma get_count_lead_source_one_page:
  "get_count_lead_source (one_page_server f) s e source evs
     = Some (Inr (length (f (make_payload (between_filter s e ''createdate''
                                            @ eq_filter ''lead_source'' source) None 100 None))),
             evs @ [Sleep (2 / 10), Post (make_payload (between_filter s e ''createdate''
                                            @ eq_filter ''lead_source'' source) None 100 None)])"
  by (simp add: get_count_lead_source_def bind_def fetch_one_page return_def)

lemma example_leads_count:
  "length (example_leads (make_payload (between_filter s e ''createdate''
                                            @ eq_filter ''lead_source'' source) None 100 None))
     = (if source = ''facebook ads'' then 2 else 1)"
  by (simp add: example_leads_def make_payload_def between_filter_def eq_filter_def)

lemma first_match_report_examples:
  "first_match latin1_lower [''Facebook'', ''Google''] ''facebook ads'' = Some ''Facebook''"
  "first_match latin1_lower [''Facebook'', ''Google''] ''Facebook Lead'' = Some ''Facebook''"
  "first_match latin1_lower [''Facebook'', ''Google''] ''TikTok'' = None"
  by code_simp+

lemma canonical_bucket_report_examples:
  "canonical_bucket latin1_lower [''Facebook'', ''Google''] ''facebook ads'' = ''Facebook''"
  "canonical_bucket latin1_lower [''Facebook'', ''Google''] ''Facebook Lead'' = ''Facebook''"
  "canonical_bucket latin1_lower [''Facebook'', ''Google''] ''TikTok'' = ''Other''"
  by (simp_all add: canonical_bucket_first_match first_match_report_examples del: first_match.simps)

lemma sort_example: "sort [''Facebook Lead'', ''facebook ads''] = [''Facebook Lead'', ''facebook ads'']"
  "sort [''facebook ads'', ''Facebook Lead''] = [''Facebook Lead'', ''facebook ads'']"
  by code_simp+

lemma sub_sources_examples:
  "sub_sources_of (grouped_sources latin1_lower [''Facebook'', ''Google''] observed_sources) ''Facebook''
     = [''Facebook Lead'', ''facebook ads'']"
  "sub_sources_of (grouped_sources latin1_lower [''Facebook'', ''Google''] observed_sources) ''Google'' = []"
  "sub_sources_of (grouped_sources latin1_lower [''Facebook'', ''Google''] observed_sources) ''Other'' = [''TikTok'']"
  by (simp_all add: sub_sources_of_def dict_get_grouped_sources observed_sources_def
      canonical_bucket_report_examples sort_example)

lemma str_nat_examples: "str_nat (Suc 0) = ''1''" "str_nat 2 = ''2''" "str_nat 3 = ''3''" "str_nat 0 = ''0''"
  "str_nat (Suc (Suc (Suc 0))) = ''3''"
  by code_simp+

lemma example_counts:
  "count_each (one_page_server example_leads) 0 0 [''Facebook Lead'', ''facebook ads'', ''TikTok''] []
     = Some (Inr [1, 2, 1],
         [Sleep (1 / 5), Post (make_payload (between_filter 0 0 ''createdate''
                                 @ eq_filter ''lead_source'' ''Facebook Lead'') None 100 None),
          Sleep (1 / 5), Post (make_payload (between_filter 0 0 ''createdate''
                                 @ eq_filter ''lead_source'' ''facebook ads'') None 100 None),
          Sleep (1 / 5), Post (make_payload (between_filter 0 0 ''createdate''
                                 @ eq_filter ''lead_source'' ''TikTok'') None 100 None)])"
  by (simp add: bind_def get_count_lead_source_one_page example_leads_count return_def)

lemma example_render:
  "render_report (grouped_sources latin1_lower [''Facebook'', ''Google''] observed_sources)
       [''Facebook'', ''Google'', ''Other''] [1, 2, 1]
     = [''Facebook: 3'', ''Facebook Lead: 1'', ''facebook ads: 2'', [],
        ''Other: 1'', ''TikTok: 1'', []]"
  by (simp add: sub_sources_examples str_nat_examples)

text \<open>The example: the canonical sources \<open>Facebook\<close> and \<open>Google\<close>, the observed values
  \<open>facebook ads\<close> (twice), \<open>TikTok\<close> and \<open>Facebook Lead\<close>, and a server that serves two leads
  for \<open>facebook ads\<close> and one for any other value. The report is produced after three
  requests; the bucket \<open>Google\<close> is empty and gives no line.\<close>

theorem lead_source_report_witness:
  "count_each (one_page_server example_leads) 0 0 [''Facebook Lead'', ''facebook ads'', ''TikTok''] []
     = Some (Inr [1, 2, 1],
         [Sleep (1 / 5), Post (make_payload (between_filter 0 0 ''createdate''
                                 @ eq_filter ''lead_source'' ''Facebook Lead'') None 100 None),
          Sleep (1 / 5), Post (make_payload (between_filter 0 0 ''createdate''
                                 @ eq_filter ''lead_source'' ''facebook ads'') None 100 None),
          Sleep (1 / 5), Post (make_payload (between_filter 0 0 ''createdate''
                                 @ eq_filter ''lead_source'' ''TikTok'') None 100 None)])
   \<and> output_lead_source (one_page_server example_leads) 0 0 [''Facebook'', ''Google'']
      (grouped_sources latin1_lower [''Facebook'', ''Google''] observed_sources) []
     = Some (Inr [''Facebook: 3'', ''Facebook Lead: 1'', ''facebook ads: 2'', [],
                  ''Other: 1'', ''TikTok: 1'', []],
         [Sleep (1 / 5), Post (make_payload (between_filter 0 0 ''createdate''
                                 @ eq_filter ''lead_source'' ''Facebook Lead'') None 100 None),
          Sleep (1 / 5), Post (make_payload (between_filter 0 0 ''createdate''
                                 @ eq_filter ''lead_source'' ''facebook ads'') None 100 None),
          Sleep (1 / 5), Post (make_payload (between_filter 0 0 ''createdate''
                                 @ eq_filter ''lead_source'' ''TikTok'') None 100 None)])
   \<and> (\<exists>counts. length counts = 3
        \<and> [''Facebook: 3'', ''Facebook Lead: 1'', ''facebook ads: 2'', [],
                  ''Other: 1'', ''TikTok: 1'', []]
          = concat (map (\<lambda>(m, cs). render_bucket m
                (zip (sub_sources_of (grouped_sources latin1_lower [''Facebook'', ''Google''] observed_sources) m) cs))
               (zip [''Facebook'', ''Google'', ''Other''] counts)))"
proof -
  let ?grouped = "grouped_sources latin1_lower [''Facebook'', ''Google''] observed_sources"
  let ?evs = "[Sleep (1 / 5), Post (make_payload (between_filter 0 0 ''createdate''
                                 @ eq_filter ''lead_source'' ''Facebook Lead'') None 100 None),
          Sleep (1 / 5), Post (make_payload (between_filter 0 0 ''createdate''
                                 @ eq_filter ''lead_source'' ''facebook ads'') None 100 None),
          Sleep (1 / 5), Post (make_payload (between_filter 0 0 ''createdate''
                                 @ eq_filter ''lead_source'' ''TikTok'') None 100 None)]"
  let ?lines = "[''Facebook: 3'', ''Facebook Lead: 1'', ''facebook ads: 2'', [],
                  ''Other: 1'', ''TikTok: 1'', []]"
  note t = lead_source_report [where srv = "one_page_server example_leads" and start_ts = 0
      and end_ts = 0 and main_lead_source = "[''Facebook'', ''Google'']" and grouped = ?grouped
      and evs = "[]" and counts = "[1, 2, 1]" and ?evs1.0 = ?evs and lines = ?lines
      and evs' = ?evs]
  have subs: "concat (map (sub_sources_of ?grouped) ([''Facebook'', ''Google''] @ [''Other'']))
      = [''Facebook Lead'', ''facebook ads'', ''TikTok'']"
    by (simp add: sub_sources_examples)
  have h: "count_each (one_page_server example_leads) 0 0
      (concat (map (sub_sources_of ?grouped) ([''Facebook'', ''Google''] @ [''Other'']))) []
        = Some (Inr [1, 2, 1], ?evs)"
    unfolding subs by (rule example_counts)
  from t [THEN conjunct2, THEN conjunct1] h
  have "output_lead_source (one_page_server example_leads) 0 0 [''Facebook'', ''Google''] ?grouped []
        = Some (Inr (render_report ?grouped ([''Facebook'', ''Google''] @ [''Other'']) [1, 2, 1]), ?evs)"
    by (rule mp)
  then have run: "output_lead_source (one_page_server example_leads) 0 0 [''Facebook'', ''Google''] ?grouped []
        = Some (Inr ?lines, ?evs)"
    using example_render by simp
  from t [THEN conjunct2, THEN conjunct2, THEN conjunct1] run
  have "\<exists>counts. length counts = length ([''Facebook'', ''Google''] @ [''Other''])
         \<and> list_all2 (\<lambda>m cs. length cs = length (sub_sources_of ?grouped m))
              ([''Facebook'', ''Google''] @ [''Other'']) counts
         \<and> count_each (one_page_server example_leads) 0 0
              (concat (map (sub_sources_of ?grouped) ([''Facebook'', ''Google''] @ [''Other'']))) []
              = Some (Inr (concat counts), ?evs)
         \<and> ?lines = concat (map (\<lambda>(m, cs). render_bucket m (zip (sub_sources_of ?grouped m) cs))
                              (zip ([''Facebook'', ''Google''] @ [''Other'']) counts))"
    by (rule mp)
  then obtain counts where
    l: "length counts = length ([''Facebook'', ''Google''] @ [''Other''])"
    and e: "?lines = concat (map (\<lambda>(m, cs). render_bucket m (zip (sub_sources_of ?grouped m) cs))
                              (zip ([''Facebook'', ''Google''] @ [''Other'']) counts))"
    by blast
  from l have l3: "length counts = 3" by simp
  have k: "[''Facebook'', ''Google''] @ [''Other''] = [''Facebook'', ''Google'', ''Other'']" by simp
  from l3 e [unfolded k] have c: "\<exists>counts. length counts = 3
        \<and> ?lines = concat (map (\<lambda>(m, cs). render_bucket m (zip (sub_sources_of ?grouped m) cs))
               (zip [''Facebook'', ''Google'', ''Other''] counts))"
    by (intro exI conjI)
  show ?thesis using example_counts run c by (intro conjI)
qed

section \<open>The per-owner reports\<close>



lemma truthy_iff: "truthy v \<longleftrightarrow> (\<exists>s. v = Some s \<and> s \<noteq> [])"
  by (cases v) (simp_all add: truthy_def)
























section \<open>The time window\<close>

lemma round_half_even_int: "round_half_even (of_int m) = m"
  by (simp add: round_half_even_def)

lemma round_half_even_bounds:
  "of_int (round_half_even r) \<le> r + 1 / 2 \<and> r - 1 / 2 \<le> of_int (round_half_even r)"
proof -
  have f: "of_int \<lfloor>r\<rfloor> \<le> r" "r < of_int \<lfloor>r\<rfloor> + 1" by linarith+
  consider "r - of_int \<lfloor>r\<rfloor> < 1 / 2" | "1 / 2 < r - of_int \<lfloor>r\<rfloor>"
    | "r - of_int \<lfloor>r\<rfloor> = 1 / 2" by linarith
  then show ?thesis
  proof cases
    case 1
    then have e: "round_half_even r = \<lfloor>r\<rfloor>" by (simp add: round_half_even_def Let_def)
    show ?thesis unfolding e using f 1 by linarith
  next
    case 2
    then have e: "round_half_even r = \<lfloor>r\<rfloor> + 1" by (simp add: round_half_even_def Let_def)
    show ?thesis unfolding e of_int_add of_int_1 using f 2 by linarith
  next
    case 3
    then have "round_half_even r = \<lfloor>r\<rfloor> \<or> round_half_even r = \<lfloor>r\<rfloor> + 1"
      by (simp add: round_half_even_def Let_def)
    then show ?thesis
    proof
      assume e: "round_half_even r = \<lfloor>r\<rfloor>"
      show ?thesis unfolding e using f 3 by linarith
    next
      assume e: "round_half_even r = \<lfloor>r\<rfloor> + 1"
      show ?thesis unfolding e of_int_add of_int_1 using f 3 by linarith
    qed
  qed
qed

lemma expo_bounds:
  assumes "1 \<le> x"
  shows "0 \<le> expo x \<and> (2::rat) ^ nat (expo x) \<le> x \<and> x < 2 ^ nat (expo x + 1)"
proof -
  let ?n = "\<lfloor>x\<rfloor>"
  have n: "0 < ?n" using assms by linarith
  have e: "expo x = bitlen ?n - 1" using assms by (simp add: expo_def)
  from bitlen_bounds [OF n] have lo: "2 ^ nat (bitlen ?n - 1) \<le> ?n" and hi: "?n < 2 ^ nat (bitlen ?n)"
    by simp_all
  have b1: "1 \<le> bitlen ?n" using n by (simp add: bitlen_alt_def)
  have "(2::rat) ^ nat (bitlen ?n - 1) = of_int (2 ^ nat (bitlen ?n - 1))" by simp
  also have "\<dots> \<le> of_int ?n" using lo by (simp only: of_int_le_iff)
  also have "\<dots> \<le> x" by simp
  finally have 1: "(2::rat) ^ nat (expo x) \<le> x" by (simp add: e)
  have "?n + 1 \<le> 2 ^ nat (bitlen ?n)" using hi by simp
  then have "(of_int (?n + 1) :: rat) \<le> of_int (2 ^ nat (bitlen ?n))" by (simp only: of_int_le_iff)
  moreover have "x < of_int (?n + 1)" by simp linarith
  ultimately have "x < 2 ^ nat (bitlen ?n)" by simp
  then have 2: "x < 2 ^ nat (expo x + 1)" by (simp add: e)
  show ?thesis using 1 2 b1 e by simp
qed

lemma expo_less:
  assumes "1 \<le> x" and "x < 2 ^ m"
  shows "expo x < int m"
proof -
  from expo_bounds [OF assms(1)] have "0 \<le> expo x" and "(2::rat) ^ nat (expo x) \<le> x" by simp_all
  then have "(2::rat) ^ nat (expo x) < 2 ^ m" using assms(2) by linarith
  then have "nat (expo x) < m" using power_less_imp_less_exp [of "2::rat" "nat (expo x)" m] by simp
  then show ?thesis using \<open>0 \<le> expo x\<close> by simp
qed

lemma ulp_small: "expo x \<le> 52 \<Longrightarrow> ulp x = 1 / 2 ^ nat (52 - expo x)"
  by (cases "expo x = 52") (simp_all add: ulp_def power_int_def inverse_eq_divide power_one_over)

lemma fl_form:
  assumes "x \<noteq> 0" and "expo x \<le> 52"
  shows "fl x = of_int (round_half_even (x * 2 ^ nat (52 - expo x))) / 2 ^ nat (52 - expo x)"
  using assms by (simp add: fl_def ulp_small)

lemma fl_of_int:
  assumes "\<bar>n\<bar> < 2 ^ 53"
  shows "fl (of_int n) = of_int n"
proof (cases "n = 0")
  case True
  then show ?thesis by (simp add: fl_def)
next
  case False
  then have a: "1 \<le> \<bar>n\<bar>" by simp
  have e: "expo (of_int n) = bitlen \<bar>n\<bar> - 1"
    using a by (simp add: expo_def flip: of_int_abs)
  have "bitlen \<bar>n\<bar> \<le> 53" using assms by (simp add: bitlen_le_iff_power)
  then have le: "expo (of_int n) \<le> 52" using e by simp
  let ?K = "nat (52 - expo (of_int n))"
  have "(of_int n :: rat) * 2 ^ ?K = of_int (n * 2 ^ ?K)" by simp
  then have "round_half_even (of_int n * 2 ^ ?K) = n * 2 ^ ?K"
    by (simp only: round_half_even_int)
  then show ?thesis using fl_form [of "of_int n", OF _ le] False by simp
qed

lemma py_int_of_int: "py_int (of_int m) = m"
  by (simp add: py_int_def)

lemma fl_lower:
  assumes "1 \<le> x" and "expo x \<le> 52"
  shows "x - 1 / (2 * 2 ^ nat (52 - expo x)) \<le> fl x"
proof -
  let ?P = "(2::rat) ^ nat (52 - expo x)"
  have P: "0 < ?P" by simp
  have f: "fl x = of_int (round_half_even (x * ?P)) / ?P"
    using fl_form [of x] assms by simp
  have "x * ?P - 1 / 2 \<le> of_int (round_half_even (x * ?P))"
    using round_half_even_bounds [of "x * ?P"] by simp
  then have "(x * ?P - 1 / 2) / ?P \<le> of_int (round_half_even (x * ?P)) / ?P"
    using P by (simp only: divide_right_mono less_imp_le)
  moreover have "(x * ?P - 1 / 2) / ?P = x - 1 / (2 * ?P)"
    using P by (simp add: field_simps)
  ultimately show ?thesis using f by simp
qed

lemma fl_grid_upper:
  assumes "1 \<le> x" and "expo x \<le> 52"
    and "x * 2 ^ nat (52 - expo x) + 1 / 2 < of_int M * 2 ^ nat (52 - expo x)"
  shows "fl x \<le> of_int M - 1 / 2 ^ nat (52 - expo x)"
proof -
  let ?K = "nat (52 - expo x)"
  let ?P = "(2::rat) ^ ?K"
  let ?R = "round_half_even (x * ?P)"
  have P: "0 < ?P" by simp
  have f: "fl x = of_int ?R / ?P"
    using fl_form [of x] assms by simp
  have "of_int ?R \<le> x * ?P + 1 / 2"
    using round_half_even_bounds [of "x * ?P"] by simp
  then have "(of_int ?R :: rat) < of_int M * ?P" using assms(3) by linarith
  also have "of_int M * ?P = of_int (M * 2 ^ ?K)" by simp
  finally have "?R < M * 2 ^ ?K" by (simp only: of_int_less_iff)
  then have "?R \<le> M * 2 ^ ?K - 1" by simp
  then have "(of_int ?R :: rat) \<le> of_int (M * 2 ^ ?K - 1)" by (simp only: of_int_le_iff)
  then have "(of_int ?R :: rat) \<le> of_int M * ?P - 1" by simp
  then have "of_int ?R / ?P \<le> (of_int M * ?P - 1) / ?P"
    using P by (simp only: divide_right_mono less_imp_le)
  moreover have "(of_int M * ?P - 1) / ?P = of_int M - 1 / ?P"
    using P by (simp add: field_simps)
  ultimately show ?thesis using f by simp
qed

lemma end_rounding:
  fixes N :: int
  assumes "1 \<le> N" and "N + 1 \<le> 2 ^ 34"
  shows "py_int (fl (fl (of_int (N * 1000000 + 999999) / 1000000) * 1000)) = N * 1000 + 999"
proof -
  define x :: rat where "x = of_int (N * 1000000 + 999999) / 1000000"
  have xN: "x = of_int N + 999999 / 1000000" by (simp add: x_def add_divide_distrib)
  have N1: "(1::rat) \<le> of_int N" using assms(1) by simp
  have x1: "1 \<le> x" using N1 xN by linarith
  have "(of_int (N + 1) :: rat) \<le> of_int (2 ^ 34)" using assms(2) by (simp only: of_int_le_iff)
  then have N34: "(of_int N :: rat) + 1 \<le> 2 ^ 34" by simp
  have xlt: "x < 2 ^ 34" using N34 xN by linarith
  define e where "e = expo x"
  have e0: "0 \<le> e" and ehi: "x < 2 ^ nat (e + 1)"
    using expo_bounds [OF x1] by (simp_all add: e_def)
  have e33: "e \<le> 33" using expo_less [OF x1 xlt] by (simp add: e_def)
  define K where "K = nat (52 - e)"
  define P :: rat where "P = 2 ^ K"
  have K19: "19 \<le> K" using e33 by (simp add: K_def)
  have "(2::rat) ^ 19 \<le> 2 ^ K" by (rule power_increasing) (use K19 in simp_all)
  then have P19: "524288 \<le> P" by (simp add: P_def)
  have Ppos: "0 < P" by (simp add: P_def)
  \<comment> \<open>the integer above \<open>x\<close> is at most the next power of two\<close>
  have "(of_int N :: rat) < 2 ^ nat (e + 1)" using ehi xN by linarith
  then have "(of_int N :: rat) < of_int (2 ^ nat (e + 1))" by simp
  then have "N < 2 ^ nat (e + 1)" by (simp only: of_int_less_iff)
  then have "N + 1 \<le> 2 ^ nat (e + 1)" by simp
  then have "(of_int (N + 1) :: rat) \<le> of_int (2 ^ nat (e + 1))" by (simp only: of_int_le_iff)
  then have Npow: "(of_int N :: rat) + 1 \<le> 2 ^ nat (e + 1)" by simp
  \<comment> \<open>first rounding: the division by \<open>10**6\<close>\<close>
  have "x * P = of_int N * P + 999999 / 1000000 * P" by (simp add: xN algebra_simps)
  then have "x * P + 1 / 2 < of_int (N + 1) * P"
    using P19 by (simp add: algebra_simps)
  then have up1: "fl x \<le> of_int (N + 1) - 1 / P"
    using fl_grid_upper [of x "N + 1"] x1 e33 by (simp add: e_def K_def P_def)
  have lo1: "x - 1 / (2 * P) \<le> fl x"
    using fl_lower [of x] x1 e33 by (simp add: e_def K_def P_def)
  have h1: "1 / (2 * P) \<le> 1 / 1048576" using P19 Ppos by (simp add: field_simps)
  have d0: "0 < 1000 / P" using Ppos by simp
  define y where "y = fl x * 1000"
  have y_lo: "of_int N * 1000 + 999998 / 1000 \<le> y"
    unfolding y_def using lo1 h1 xN by linarith
  have "fl x * 1000 \<le> (of_int (N + 1) - 1 / P) * 1000"
    by (rule mult_right_mono [OF up1]) simp
  also have "\<dots> = (of_int N + 1) * 1000 - 1000 / P" by (simp add: algebra_simps)
  finally have y_up: "y \<le> (of_int N + 1) * 1000 - 1000 / P" by (simp only: y_def)
  have y1: "1 \<le> y" using y_lo N1 by linarith
  have "y < (of_int N + 1) * 1000" using y_up d0 by linarith
  also have "\<dots> \<le> 2 ^ nat (e + 1) * 1000" using Npow by simp
  also have "\<dots> < 2 ^ nat (e + 1) * 2 ^ 10" by simp
  also have "\<dots> = 2 ^ (nat (e + 1) + 10)" by (simp only: power_add)
  finally have "expo y < int (nat (e + 1) + 10)" using expo_less [OF y1] by blast
  then have e': "expo y \<le> e + 10" using e0 by simp
  define K' where "K' = nat (52 - expo y)"
  define P' :: rat where "P' = 2 ^ K'"
  have P'pos: "0 < P'" by (simp add: P'_def)
  have KK: "K \<le> K' + 10" using e' by (simp add: K_def K'_def)
  have "(2::rat) ^ K \<le> 2 ^ (K' + 10)" by (rule power_increasing) (use KK in simp_all)
  then have PP: "P \<le> P' * 1024" by (simp add: P_def P'_def power_add)
  have "9 \<le> K'" using e' e33 by (simp add: K'_def)
  then have "(2::rat) ^ 9 \<le> 2 ^ K'" by (intro power_increasing) simp_all
  then have P'9: "512 \<le> P'" by (simp add: P'_def)
  have e'52: "expo y \<le> 52" using e' e33 by simp
  \<comment> \<open>second rounding: the multiplication by 1000\<close>
  have q: "1 / 1024 \<le> P' / P" using PP Ppos by (simp add: field_simps)
  have "y * P' \<le> ((of_int N + 1) * 1000 - 1000 / P) * P'"
    using y_up P'pos by (simp only: mult_right_mono less_imp_le)
  also have "\<dots> = (of_int N + 1) * 1000 * P' - 1000 * (P' / P)"
    by (simp add: algebra_simps)
  finally have "y * P' + 1 / 2 < (of_int N + 1) * 1000 * P'"
    using q by linarith
  then have "y * P' + 1 / 2 < of_int ((N + 1) * 1000) * P'" by simp
  then have up2: "fl y \<le> of_int ((N + 1) * 1000) - 1 / P'"
    using fl_grid_upper [of y "(N + 1) * 1000"] y1 e'52 by (simp only: K'_def P'_def)
  have lo2: "y - 1 / (2 * P') \<le> fl y"
    using fl_lower [of y] y1 e'52 by (simp only: K'_def P'_def)
  have h2: "1 / (2 * P') \<le> 1 / 1024" using P'9 P'pos by (simp add: field_simps)
  have d2: "0 < 1 / P'" using P'pos by simp
  have c1: "(of_int (N * 1000 + 999) :: rat) = of_int N * 1000 + 999" by simp
  have c2: "(of_int ((N + 1) * 1000) :: rat) = of_int N * 1000 + 1000" by simp
  have lo: "of_int (N * 1000 + 999) \<le> fl y" unfolding c1 using lo2 y_lo h2 by linarith
  have up: "fl y < of_int (N * 1000 + 999) + 1" unfolding c1 using up2 [unfolded c2] d2 by linarith
  have "\<lfloor>fl y\<rfloor> = N * 1000 + 999" using lo up by (simp only: floor_unique)
  moreover have "0 \<le> fl y" using lo N1 unfolding c1 by linarith
  ultimately show ?thesis by (simp add: py_int_def x_def y_def)
qed

lemma day_datetime_now: "day (datetime_now t) = local_day t"
  by (simp add: datetime_now_def local_day_def tz_gmt7_def Let_def)

lemma total_microseconds_end:
  "total_microseconds (end_time now) = (day now * 86400 + 35999) * 1000000 + 999999"
  by (simp add: total_microseconds_def end_time_def tz_gmt7_def)

text \<open>The start of the window. On the first day a \<open>datetime\<close> can hold there is no day
  before and the script raises; on every other day the start timestamp is the epoch
  milliseconds of 17:00:00.000 of the day before.\<close>

lemma start_timestamp_overflow:
  assumes "day now = min_day"
  shows "start_timestamp now = Inl (OverflowError ''date value out of range'')"
  using assms by (simp add: start_timestamp_def start_time_def yesterday_def minus_days_def min_day_def)

lemma start_timestamp_exact:
  assumes "min_day < day now" and "day now \<le> max_day"
  shows "start_timestamp now = Inr (civil_ms (day now - 1) 17 0 0 0)"
proof -
  define S where "S = (day now - 1) * 86400 + 36000"
  define d where "d = now\<lparr>day := day now - 1, hour := 17, minute := 0, second := 0, microsecond := 0\<rparr>"
  have st: "start_time now = Inr d"
    using assms
    by (simp add: start_time_def yesterday_def minus_days_def min_day_def max_day_def d_def)
  have tm: "total_microseconds d = S * 1000000"
    by (simp add: total_microseconds_def d_def S_def tz_gmt7_def)
  have b: "\<bar>S\<bar> < 2 ^ 53" "\<bar>S * 1000\<bar> < 2 ^ 53"
    using assms by (simp_all add: S_def min_day_def max_day_def)
  have "timestamp d = fl (of_int (S * 1000000) / 1000000)"
    by (simp only: timestamp_def tm)
  also have "of_int (S * 1000000) / 1000000 = (of_int S :: rat)" by simp
  finally have t: "timestamp d = of_int S" using fl_of_int [OF b(1)] by simp
  have "fl (of_int S * 1000) = fl (of_int (S * 1000))" by simp
  also have "\<dots> = of_int (S * 1000)" by (rule fl_of_int [OF b(2)])
  finally have "py_int (fl (timestamp d * 1000)) = S * 1000"
    unfolding t by (simp only: py_int_of_int)
  then show ?thesis by (simp add: start_timestamp_def st S_def civil_ms_def)
qed

text \<open>The end of the window, for a day between 1970-01-01 and 2514-05-29 (day numbers 0
  to 198840): the epoch milliseconds of 16:59:59.999 of the current day.\<close>

lemma end_timestamp_exact:
  assumes "0 \<le> day now" and "day now \<le> 198840"
  shows "end_timestamp now = civil_ms (day now) 16 59 59 999"
proof -
  define N where "N = day now * 86400 + 35999"
  have b: "1 \<le> N" "N + 1 \<le> 2 ^ 34" using assms by (simp_all add: N_def)
  have "end_timestamp now = py_int (fl (fl (of_int (N * 1000000 + 999999) / 1000000) * 1000))"
    by (simp only: end_timestamp_def timestamp_def total_microseconds_end N_def)
  also have "\<dots> = N * 1000 + 999" by (rule end_rounding [OF b])
  finally show ?thesis by (simp add: N_def civil_ms_def)
qed

text \<open>With the clock at \<open>t\<close> microseconds since the epoch: where the code meets the
  claim.\<close>

lemma window_timestamps_in_range:
  "(min_day < local_day t \<and> local_day t \<le> max_day \<longrightarrow>
      start_timestamp (datetime_now t) = Inr (civil_ms (local_day t - 1) 17 0 0 0))
   \<and> (0 \<le> local_day t \<and> local_day t \<le> 198840 \<longrightarrow>
      end_timestamp (datetime_now t) = civil_ms (local_day t) 16 59 59 999)"
  using start_timestamp_exact [of "datetime_now t"] end_timestamp_exact [of "datetime_now t"]
  by (simp add: day_datetime_now)

lemma example_now: "local_day 1793699999999123 = 20760"
  by (simp add: local_day_def)

lemma window_example:
  "start_timestamp (datetime_now 1793699999999123) = Inr 1793613600000"
  "end_timestamp (datetime_now 1793699999999123) = 1793699999999"
  using window_timestamps_in_range [of 1793699999999123]
  by (simp_all add: example_now civil_ms_def min_day_def max_day_def)

lemma end_before_epoch: "end_timestamp (datetime_now (- 50400000000)) = - 50400000"
  by code_simp

lemma end_after_2514: "end_timestamp (datetime_now 17179898400000000) = 17179898400000"
  by code_simp

lemma now_2514:
  "datetime_now 17179898400000000
     = \<lparr>day = 198841, hour = 17, minute = 0, second = 0, microsecond = 0\<rparr>"
  by (simp add: datetime_now_def tz_gmt7_def)

lemma now_1969:
  "datetime_now (- 50400000000)
     = \<lparr>day = - 1, hour = 17, minute = 0, second = 0, microsecond = 0\<rparr>"
  by (simp add: datetime_now_def tz_gmt7_def)

text \<open>
  C4. The code breaks the claim for the end timestamp outside the years 1970 to 2514,
  although it sets the end time to 16:59:59.999999. The end time goes through
  \<open>timestamp()\<close>, a binary64 float of seconds, is multiplied by 1000 and cut by \<open>int()\<close>.
  From 2514-05-30 (day 198841) the double nearest to the end time in seconds is the next
  whole second: with the clock at 17:00 of that day the end timestamp is
  17:00:00.000. Before the epoch the timestamp is negative and \<open>int()\<close> truncates towards
  zero: with the clock at 17:00 of 1969-12-31 the end is 17:00:00.000 again. In both
  cases the end timestamp is one millisecond after 16:59:59.999 of the current day.
\<close>

theorem window_end_timestamp_fails:
  "datetime_now 17179898400000000
     = \<lparr>day = 198841, hour = 17, minute = 0, second = 0, microsecond = 0\<rparr>
   \<and> end_timestamp (datetime_now 17179898400000000) = 17179898400000
   \<and> civil_ms 198841 16 59 59 999 = 17179898399999
   \<and> civil_ms 198841 17 0 0 0 = 17179898400000
   \<and> datetime_now (- 50400000000)
     = \<lparr>day = - 1, hour = 17, minute = 0, second = 0, microsecond = 0\<rparr>
   \<and> end_timestamp (datetime_now (- 50400000000)) = - 50400000
   \<and> civil_ms (- 1) 16 59 59 999 = - 50400001
   \<and> civil_ms (- 1) 17 0 0 0 = - 50400000"
proof -
  have "civil_ms 198841 16 59 59 999 = 17179898399999"
    "civil_ms 198841 17 0 0 0 = 17179898400000"
    "civil_ms (- 1) 16 59 59 999 = - 50400001"
    "civil_ms (- 1) 17 0 0 0 = - 50400000"
    by (simp_all add: civil_ms_def)
  then show ?thesis using now_2514 end_after_2514 now_1969 end_before_epoch by (intro conjI)
qed

end
